theory Spec2Isabelle
  imports Main "HOL-Library.Word"
begin

section \<open>The Go library functions the package calls\<close>

text \<open>
  Go strings are byte sequences; they are modelled as \<open>string\<close> (a list of 8-bit
  characters). \<open>uint64\<close> is a 64-bit word, \<open>time.Time\<close> an abstract clock reading.
\<close>

type_synonym uint64 = "64 word"
type_synonym time = nat

subsection \<open>strings.Split with a one-byte separator\<close>

text \<open>
  \<^verbatim>\<open>strings.Split(s, sep)\<close> cuts \<open>s\<close> at every occurrence of \<open>sep\<close>; the result
  always has one element more than there are separators, so it is never empty.
\<close>

fun Split :: "string \<Rightarrow> char \<Rightarrow> string list" where
  "Split [] sep = [[]]"
| "Split (c # cs) sep =
     (if c = sep then [] # Split cs sep
      else (case Split cs sep of
              x # xs \<Rightarrow> (c # x) # xs
            | [] \<Rightarrow> [[c]]))"

subsection \<open>strings.Fields\<close>

text \<open>
  \<^verbatim>\<open>strings.Fields\<close> splits around runs of white space as \<^verbatim>\<open>unicode.IsSpace\<close>
  defines it. On the UTF-8 bytes of a string these are the six ASCII bytes below and the
  encodings of U+0085, U+00A0, U+1680, U+2000..U+200A, U+2028, U+2029, U+202F, U+205F and
  U+3000. A lead byte of such an encoding is never a continuation byte of another rune, so
  looking for the byte sequences finds the same runes as decoding does.
\<close>

definition asciiSpace :: "char \<Rightarrow> bool" where
  "asciiSpace c \<longleftrightarrow>
     c = CHR 0x09 \<or> c = CHR 0x0A \<or> c = CHR 0x0B \<or> c = CHR 0x0C \<or> c = CHR 0x0D \<or> c = CHR 0x20"

text \<open>The number of bytes of the white-space rune a string starts with; 0 when it starts with none.\<close>

fun spaceWidth :: "string \<Rightarrow> nat" where
  "spaceWidth [] = 0"
| "spaceWidth (c # cs) =
     (if asciiSpace c then 1
      else if c = CHR 0xC2 \<and> (take 1 cs = [CHR 0x85] \<or> take 1 cs = [CHR 0xA0]) then 2
      else if c = CHR 0xE1 \<and> take 2 cs = [CHR 0x9A, CHR 0x80] then 3
      else if c = CHR 0xE2 \<and> take 1 cs = [CHR 0x80] \<and>
              (case drop 1 cs of
                 d # _ \<Rightarrow> (0x80 \<le> (of_char d :: nat) \<and> (of_char d :: nat) \<le> 0x8A) \<or>
                          d = CHR 0xA8 \<or> d = CHR 0xA9 \<or> d = CHR 0xAF
               | [] \<Rightarrow> False) then 3
      else if c = CHR 0xE2 \<and> take 2 cs = [CHR 0x81, CHR 0x9F] then 3
      else if c = CHR 0xE3 \<and> take 2 cs = [CHR 0x80, CHR 0x80] then 3
      else 0)"

text \<open>\<open>FieldsFrom cur s\<close>: the fields of \<open>s\<close>, where \<open>cur\<close> holds the bytes of the field being read.\<close>

function FieldsFrom :: "string \<Rightarrow> string \<Rightarrow> string list" where
  "FieldsFrom cur [] = (if cur = [] then [] else [cur])"
| "FieldsFrom cur (c # cs) =
     (if spaceWidth (c # cs) = 0 then FieldsFrom (cur @ [c]) cs
      else (if cur = [] then [] else [cur]) @ FieldsFrom [] (drop (spaceWidth (c # cs) - 1) cs))"
  by pat_completeness auto
termination
  by (relation "measure (\<lambda>(cur, s). length s)") auto

definition Fields :: "string \<Rightarrow> string list" where
  "Fields s = FieldsFrom [] s"

subsection \<open>strconv.ParseUint(s, 10, 64) and strconv.Atoi\<close>

datatype NumError = ErrSyntax | ErrRange

definition maxUint64 :: uint64 where
  "maxUint64 = 0xFFFFFFFFFFFFFFFF"

text \<open>The smallest number whose tenfold exceeds \<open>maxUint64\<close>.\<close>

definition cutoff :: uint64 where
  "cutoff = maxUint64 div 10 + 1"

definition isDigit :: "char \<Rightarrow> bool" where
  "isDigit c \<longleftrightarrow> (48 :: nat) \<le> of_char c \<and> (of_char c :: nat) \<le> 57"

definition digitVal :: "char \<Rightarrow> nat" where
  "digitVal c = of_char c - 48"

text \<open>
  The digit loop of \<^verbatim>\<open>ParseUint\<close>: a byte that is no decimal digit ends it with value 0 and
  a syntax error; a value that no longer fits ends it with \<open>maxUint64\<close> and a range error.
\<close>

fun ParseUintLoop :: "uint64 \<Rightarrow> string \<Rightarrow> uint64 \<times> NumError option" where
  "ParseUintLoop n [] = (n, None)"
| "ParseUintLoop n (c # cs) =
     (if \<not> isDigit c then (0, Some ErrSyntax)
      else if n \<ge> cutoff then (maxUint64, Some ErrRange)
      else (let n10 = n * 10; n1 = n10 + of_nat (digitVal c)
            in if n1 < n10 then (maxUint64, Some ErrRange)
               else ParseUintLoop n1 cs))"

definition ParseUint :: "string \<Rightarrow> uint64 \<times> NumError option" where
  "ParseUint s = (if s = [] then (0, Some ErrSyntax) else ParseUintLoop 0 s)"

text \<open>
  \<^verbatim>\<open>strconv.Atoi\<close> on a 64-bit platform is \<^verbatim>\<open>ParseInt(s, 10, 0)\<close>: an optional sign, then
  \<^verbatim>\<open>ParseUint\<close>; the result is clamped to the range of \<open>int64\<close> on a range error.
\<close>

definition Atoi :: "string \<Rightarrow> int \<times> NumError option" where
  "Atoi s =
     (if s = [] then (0, Some ErrSyntax)
      else (let neg = (hd s = CHR ''-'');
                s1 = (if hd s = CHR ''+'' \<or> hd s = CHR ''-'' then tl s else s);
                (un, err) = ParseUint s1
            in if err = Some ErrSyntax then (0, err)
               else if \<not> neg \<and> uint un \<ge> 2 ^ 63 then (2 ^ 63 - 1, Some ErrRange)
               else if neg \<and> uint un > 2 ^ 63 then (- (2 ^ 63), Some ErrRange)
               else (if neg then - uint un else uint un, None)))"

section \<open>Errors, the file system and the walker\<close>

text \<open>
  The errors the package handles. \<open>ErrNotExist\<close> stands for every error that
  \<^verbatim>\<open>os.IsNotExist\<close> accepts, \<open>ErrOther n\<close> for any other failure of the operating system
  (permission, I/O), \<open>Errorf\<close> for an error built by \<^verbatim>\<open>fmt.Errorf\<close> and \<open>ErrWalking\<close> for the
  one \<^verbatim>\<open>updatePaths\<close> builds around the error of the walk.
\<close>

datatype error = ErrNotExist | ErrOther nat | Errorf string | ErrWalking error

definition IsNotExist :: "error \<Rightarrow> bool" where
  "IsNotExist e \<longleftrightarrow> e = ErrNotExist"

text \<open>\<^verbatim>\<open>ioutil.ReadFile\<close>: what reading each path gives during one pass.\<close>

type_synonym filesystem = "string \<Rightarrow> error + string"

text \<open>
  One call that \<^verbatim>\<open>filepath.Walk\<close> makes to its callback: the path, the \<^verbatim>\<open>os.FileInfo\<close>
  (its \<^verbatim>\<open>Name()\<close> and \<^verbatim>\<open>IsDir()\<close>) and the error of visiting the entry, if any.
\<close>

record FileInfo =
  Name :: string
  IsDir :: bool

record WalkCall =
  filePath :: string
  info :: FileInfo
  err :: "error option"

text \<open>
  \<^verbatim>\<open>filepath.Walk\<close> calls the callback on one entry after the other and stops at the first
  call that returns an error, which it returns. The list holds the calls it makes as long as
  the callback returns nil.
\<close>

fun Walk :: "(WalkCall \<Rightarrow> 's \<Rightarrow> 's \<times> error option) \<Rightarrow> WalkCall list \<Rightarrow> 's \<Rightarrow> 's \<times> error option" where
  "Walk f [] st = (st, None)"
| "Walk f (c # cs) st =
     (case f c st of
        (st', None) \<Rightarrow> Walk f cs st'
      | (st', Some e) \<Rightarrow> (st', Some e))"

text \<open>\<^verbatim>\<open>path.Base\<close>: the last element of a slash-separated path.\<close>

fun stripSlashes :: "string \<Rightarrow> string" where
  "stripSlashes p = (if p \<noteq> [] \<and> last p = CHR ''/'' then stripSlashes (butlast p) else p)"

declare stripSlashes.simps [simp del]

definition Base :: "string \<Rightarrow> string" where
  "Base p =
     (if p = [] then ''.''
      else (let p1 = stripSlashes p;
                p2 = last (Split p1 CHR ''/'')
            in if p2 = [] then ''/'' else p2))"

text \<open>What a call gives back: the map, an error (with a nil map), or no return at all.\<close>

datatype 'm result = Ok 'm | Err error | NilPointerPanic

section \<open>The first version: ReadCgroups (gocstat.go)\<close>

text \<open>
  The model is of one call running alone: the mutex that every call holds from its start to
  its end is left out, and so is the message printed when an entry is removed.
\<close>

record CCPUStat =
  path :: string
  User :: uint64
  System :: uint64

record CMemStat =
  path :: string
  RSS :: uint64
  Cache :: uint64

record ContainerStat =
  Memory :: CMemStat
  CPU :: CCPUStat

text \<open>The map \<^verbatim>\<open>cg.Containers\<close>; a nil \<^verbatim>\<open>cg\<close> is \<open>None\<close>.\<close>

type_synonym cgroups = "string \<rightharpoonup> ContainerStat"

definition ContainerStat0 :: ContainerStat where
  "ContainerStat0 =
     \<lparr>Memory = \<lparr>CMemStat.path = [], RSS = 0, Cache = 0\<rparr>,
      CPU = \<lparr>CCPUStat.path = [], User = 0, System = 0\<rparr>\<rparr>"

definition MemFile :: string where
  "MemFile = ''memory.stat''"

definition CPUFile :: string where
  "CPUFile = ''cpuacct.stat''"

fun createCPUStat_loop :: "nat \<Rightarrow> string list \<Rightarrow> ContainerStat \<Rightarrow> ContainerStat" where
  "createCPUStat_loop i [] cs = cs"
| "createCPUStat_loop i (line # lines) cs =
     (let fields = Fields line in
      if length fields < 2 then createCPUStat_loop (i + 1) lines cs
      else if i = 0
        then createCPUStat_loop (i + 1) lines
               (cs\<lparr>CPU := (CPU cs)\<lparr>CCPUStat.User := fst (ParseUint (fields ! 1))\<rparr>\<rparr>)
      else if i = 1
        then createCPUStat_loop (i + 1) lines
               (cs\<lparr>CPU := (CPU cs)\<lparr>CCPUStat.System := fst (ParseUint (fields ! 1))\<rparr>\<rparr>)
      else createCPUStat_loop (i + 1) lines cs)"

definition createCPUStat :: "ContainerStat \<Rightarrow> string \<Rightarrow> ContainerStat" where
  "createCPUStat cs content =
     (let lines = Split content CHR 0x0A in
      if length lines < 2 then cs else createCPUStat_loop 0 lines cs)"

fun createMemStat_loop :: "nat \<Rightarrow> string list \<Rightarrow> ContainerStat \<Rightarrow> ContainerStat" where
  "createMemStat_loop i [] cs = cs"
| "createMemStat_loop i (line # lines) cs =
     (let fields = Fields line in
      if length fields < 2 then createMemStat_loop (i + 1) lines cs
      else if i = 0
        then createMemStat_loop (i + 1) lines
               (cs\<lparr>Memory := (Memory cs)\<lparr>CMemStat.Cache := fst (ParseUint (fields ! 1))\<rparr>\<rparr>)
      else if i = 1
        then createMemStat_loop (i + 1) lines
               (cs\<lparr>Memory := (Memory cs)\<lparr>CMemStat.RSS := fst (ParseUint (fields ! 1))\<rparr>\<rparr>)
      else createMemStat_loop (i + 1) lines cs)"

definition createMemStat :: "ContainerStat \<Rightarrow> string \<Rightarrow> ContainerStat" where
  "createMemStat cs content =
     (let lines = Split content CHR 0x0A in
      if length lines < 2 then cs else createMemStat_loop 0 lines cs)"

text \<open>
  The body of the loop of \<^verbatim>\<open>ReadCgroups\<close> works on the entry \<open>cs\<close> that the key points to;
  \<^verbatim>\<open>cg.Containers[id]\<close> is that same entry wherever the body uses it, since the key is
  deleted only right before \<^verbatim>\<open>continue\<close>. A statement of the body ends in one of three ways:
  control goes on with the entry as it is now, the key is deleted and the loop continues,
  or the function returns an error.
\<close>

datatype entry_flow = Proceed ContainerStat | DeleteContinue | Return ContainerStat error

definition ReadCgroups_memory :: "filesystem \<Rightarrow> ContainerStat \<Rightarrow> entry_flow" where
  "ReadCgroups_memory fs cs =
     (if CMemStat.path (Memory cs) \<noteq> [] then
        (case fs (CMemStat.path (Memory cs)) of
           Inl e \<Rightarrow> if IsNotExist e then DeleteContinue else Return cs e
         | Inr b \<Rightarrow> Proceed (createMemStat cs b))
      else Proceed cs)"

definition ReadCgroups_cpu :: "filesystem \<Rightarrow> ContainerStat \<Rightarrow> entry_flow" where
  "ReadCgroups_cpu fs cs =
     (if CCPUStat.path (CPU cs) \<noteq> [] then
        (case fs (CCPUStat.path (CPU cs)) of
           Inl e \<Rightarrow> if IsNotExist e then DeleteContinue else Return cs e
         | Inr b \<Rightarrow> Proceed (createCPUStat cs b))
      else Proceed cs)"

definition ReadCgroups_body :: "filesystem \<Rightarrow> ContainerStat \<Rightarrow> entry_flow" where
  "ReadCgroups_body fs cs =
     (case ReadCgroups_memory fs cs of
        Proceed cs1 \<Rightarrow> ReadCgroups_cpu fs cs1
      | DeleteContinue \<Rightarrow> DeleteContinue
      | Return cs1 e \<Rightarrow> Return cs1 e)"

text \<open>
  The loop over the map. Go visits the keys in an order it does not specify; \<open>ids\<close> is
  that order. The loop gives the map as it is when the loop ends, and the error if it
  ended by \<^verbatim>\<open>return nil, err\<close>.
\<close>

fun ReadCgroups_loop :: "filesystem \<Rightarrow> string list \<Rightarrow> cgroups \<Rightarrow> cgroups \<times> error option" where
  "ReadCgroups_loop fs [] cg = (cg, None)"
| "ReadCgroups_loop fs (cid # ids) cg =
     (case cg cid of
        None \<Rightarrow> ReadCgroups_loop fs ids cg
      | Some cs \<Rightarrow>
          (case ReadCgroups_body fs cs of
             Proceed cs' \<Rightarrow> ReadCgroups_loop fs ids (cg(cid \<mapsto> cs'))
           | DeleteContinue \<Rightarrow> ReadCgroups_loop fs ids (cg(cid := None))
           | Return cs' e \<Rightarrow> (cg(cid \<mapsto> cs'), Some e)))"

text \<open>\<^verbatim>\<open>ReadCgroups\<close>: the package variable \<^verbatim>\<open>cg\<close> after the call, and what the call gives back.\<close>

definition ReadCgroups :: "filesystem \<Rightarrow> string list \<Rightarrow> cgroups option \<Rightarrow> cgroups option \<times> cgroups result" where
  "ReadCgroups fs ids cg =
     (case cg of
        None \<Rightarrow> (None, Err (Errorf ''not initialized''))
      | Some m \<Rightarrow>
          (case ReadCgroups_loop fs ids m of
             (m', None) \<Rightarrow> (Some m', Ok m')
           | (m', Some e) \<Rightarrow> (Some m', Err e)))"

text \<open>
  \<^verbatim>\<open>walkFn\<close>. The compiled pattern is a parameter: \<open>re p\<close> is what
  \<^verbatim>\<open>re.FindStringSubmatch(p)\<close> returns, the empty list when the pattern does not match.
\<close>

definition walkFn :: "(string \<Rightarrow> string list) \<Rightarrow> WalkCall \<Rightarrow> cgroups \<Rightarrow> cgroups \<times> error option" where
  "walkFn re c cg =
     (case err c of
        Some e \<Rightarrow> (cg, Some e)
      | None \<Rightarrow>
          (let matches = re (filePath c) in
           if length matches < 2 then (cg, None)
           else (let cid = matches ! 1 in
                 if IsDir (info c) then
                   (case cg cid of
                      None \<Rightarrow> (cg(cid \<mapsto> ContainerStat0), None)
                    | Some cs \<Rightarrow> (cg, None))
                 else
                   (case cg cid of
                      None \<Rightarrow> (cg, None)
                    | Some cs \<Rightarrow>
                        (let cs1 = (if Base (Name (info c)) = MemFile
                                    then cs\<lparr>Memory := (Memory cs)\<lparr>CMemStat.path := filePath c\<rparr>\<rparr>
                                    else cs);
                             cs2 = (if Base (Name (info c)) = CPUFile
                                    then cs1\<lparr>CPU := (CPU cs1)\<lparr>CCPUStat.path := filePath c\<rparr>\<rparr>
                                    else cs1)
                         in (cg(cid \<mapsto> cs2), None))))))"

definition updatePaths :: "(string \<Rightarrow> string list) \<Rightarrow> WalkCall list \<Rightarrow> cgroups option \<Rightarrow> cgroups option \<times> error option" where
  "updatePaths re calls cg =
     (case cg of
        None \<Rightarrow> (None, Some (Errorf ''not initialized''))
      | Some m \<Rightarrow>
          (case Walk (walkFn re) calls m of
             (m', None) \<Rightarrow> (Some m', None)
           | (m', Some e) \<Rightarrow> (Some m', Some (ErrWalking e))))"

section \<open>Block-device statistics, the earlier version (part_005)\<close>

record BlkDevice_part005 =
  Major :: int
  Minor :: int
  Read :: uint64
  Write :: uint64
  Sync :: uint64
  Async :: uint64

record BlkServiced_part005 =
  path :: string
  Timestamp :: time
  Devices :: "BlkDevice_part005 list"

definition BlkDevice0_part005 :: BlkDevice_part005 where
  "BlkDevice0_part005 =
     \<lparr>BlkDevice_part005.Major = 0, Minor = 0, Read = 0, Write = 0, Sync = 0, Async = 0\<rparr>"

definition BlkDevice_line_part005 :: "BlkDevice_part005 \<Rightarrow> string \<Rightarrow> BlkDevice_part005" where
  "BlkDevice_line_part005 b line =
     (let fields = Fields line in
      if length fields \<noteq> 3 then b
      else (let deviceStr = fields ! 0; op = fields ! 1; unit = fields ! 2;
                device = Split deviceStr CHR '':'';
                b0 = b\<lparr>BlkDevice_part005.Major := fst (Atoi (device ! 0))\<rparr>;
                b1 = (if length device = 2
                      then b0\<lparr>BlkDevice_part005.Major := fst (Atoi (device ! 0)),
                              BlkDevice_part005.Minor := fst (Atoi (device ! 1))\<rparr>
                      else b0)
            in if op = ''Read'' then b1\<lparr>BlkDevice_part005.Read := fst (ParseUint unit)\<rparr>
               else if op = ''Write'' then b1\<lparr>BlkDevice_part005.Write := fst (ParseUint unit)\<rparr>
               else if op = ''Sync'' then b1\<lparr>BlkDevice_part005.Sync := fst (ParseUint unit)\<rparr>
               else if op = ''Async'' then b1\<lparr>BlkDevice_part005.Async := fst (ParseUint unit)\<rparr>
               else b1))"

fun BlkDevice_lines_part005 :: "BlkDevice_part005 \<Rightarrow> string list \<Rightarrow> BlkDevice_part005" where
  "BlkDevice_lines_part005 b [] = b"
| "BlkDevice_lines_part005 b (line # lines) =
     BlkDevice_lines_part005 (BlkDevice_line_part005 b line) lines"

definition BlkDevice_create_part005 :: "BlkDevice_part005 \<Rightarrow> string \<Rightarrow> BlkDevice_part005" where
  "BlkDevice_create_part005 b content = BlkDevice_lines_part005 b (Split content CHR 0x0A)"

text \<open>
  The loop of this version's \<^verbatim>\<open>BlkServiced.create\<close>. \<open>tmpContent\<close> is a string here, and
  the loop never assigns \<open>lastDeviceStr\<close>.
\<close>

fun BlkServiced_scan_part005 ::
  "string \<Rightarrow> string \<Rightarrow> BlkDevice_part005 list \<Rightarrow> string list \<Rightarrow> string \<times> BlkDevice_part005 list" where
  "BlkServiced_scan_part005 lastDeviceStr tmpContent devices [] = (tmpContent, devices)"
| "BlkServiced_scan_part005 lastDeviceStr tmpContent devices (line # lines) =
     (let fields = Fields line in
      if length fields \<noteq> 3 then BlkServiced_scan_part005 lastDeviceStr tmpContent devices lines
      else (let deviceStr = fields ! 0 in
            if deviceStr \<noteq> lastDeviceStr
            then BlkServiced_scan_part005 lastDeviceStr []
                   (if lastDeviceStr \<noteq> []
                    then devices @ [BlkDevice_create_part005 BlkDevice0_part005 tmpContent]
                    else devices) lines
            else BlkServiced_scan_part005 lastDeviceStr (tmpContent @ line) devices lines))"

definition BlkServiced_create_part005 :: "time \<Rightarrow> string \<Rightarrow> BlkServiced_part005 \<Rightarrow> BlkServiced_part005" where
  "BlkServiced_create_part005 now content b =
     (let (tmpContent, devices) = BlkServiced_scan_part005 [] [] [] (Split content CHR 0x0A)
      in b\<lparr>BlkServiced_part005.Timestamp := now,
           BlkServiced_part005.Devices :=
             (if tmpContent \<noteq> []
              then devices @ [BlkDevice_create_part005 BlkDevice0_part005 tmpContent]
              else devices)\<rparr>)"

section \<open>Block-device statistics (part_001)\<close>

text \<open>The structs of the block-I/O file: one \<open>BlkDevice\<close> per device, a \<open>BlkServiced\<close> per metric file.\<close>

record BlkDevice =
  Major :: uint64
  Minor :: uint64
  Read :: uint64
  Write :: uint64
  Sync :: uint64
  Async :: uint64

record BlkServiced =
  path :: string
  Timestamp :: time
  Devices :: "BlkDevice list"

record BlkIOStat =
  Bytes :: BlkServiced
  IOPS :: BlkServiced

text \<open>The zero value \<^verbatim>\<open>BlkDevice{}\<close>.\<close>

definition BlkDevice0 :: BlkDevice where
  "BlkDevice0 = \<lparr>Major = 0, Minor = 0, Read = 0, Write = 0, Sync = 0, Async = 0\<rparr>"

text \<open>The body of the loop of \<^verbatim>\<open>BlkDevice.create\<close>: what one line does to the record.\<close>

definition BlkDevice_line :: "BlkDevice \<Rightarrow> string \<Rightarrow> BlkDevice" where
  "BlkDevice_line b line =
     (let fields = Fields line in
      if length fields \<noteq> 3 then b
      else (let deviceStr = fields ! 0; op = fields ! 1; unit = fields ! 2;
                device = Split deviceStr CHR '':'';
                b1 = (if length device > 1
                      then b\<lparr>Major := fst (ParseUint (device ! 0)),
                             Minor := fst (ParseUint (device ! 1))\<rparr>
                      else b)
            in if op = ''Read'' then b1\<lparr>Read := fst (ParseUint unit)\<rparr>
               else if op = ''Write'' then b1\<lparr>Write := fst (ParseUint unit)\<rparr>
               else if op = ''Sync'' then b1\<lparr>Sync := fst (ParseUint unit)\<rparr>
               else if op = ''Async'' then b1\<lparr>Async := fst (ParseUint unit)\<rparr>
               else b1))"

fun BlkDevice_create :: "BlkDevice \<Rightarrow> string list \<Rightarrow> BlkDevice" where
  "BlkDevice_create b [] = b"
| "BlkDevice_create b (line # lines) = BlkDevice_create (BlkDevice_line b line) lines"

text \<open>
  The loop of \<^verbatim>\<open>BlkServiced.create\<close> over the lines from index \<open>i\<close> on, with the loop's
  variables \<open>lastDeviceStr\<close>, \<open>tmpContent\<close> and \<open>b.Devices\<close>; it returns the last two.
\<close>

fun BlkServiced_scan ::
  "nat \<Rightarrow> string \<Rightarrow> string list \<Rightarrow> BlkDevice list \<Rightarrow> string list \<Rightarrow> string list \<times> BlkDevice list" where
  "BlkServiced_scan i lastDeviceStr tmpContent devices [] = (tmpContent, devices)"
| "BlkServiced_scan i lastDeviceStr tmpContent devices (line # lines) =
     (let fields = Fields line in
      if length fields \<noteq> 3 then BlkServiced_scan (i + 1) lastDeviceStr tmpContent devices lines
      else (let deviceStr = fields ! 0 in
            if deviceStr \<noteq> lastDeviceStr \<and> i > 0
            then BlkServiced_scan (i + 1) deviceStr [line]
                   (devices @ [BlkDevice_create BlkDevice0 tmpContent]) lines
            else BlkServiced_scan (i + 1) deviceStr (tmpContent @ [line]) devices lines))"

definition BlkServiced_create :: "time \<Rightarrow> string \<Rightarrow> BlkServiced \<Rightarrow> BlkServiced" where
  "BlkServiced_create now content b =
     (let (tmpContent, devices) = BlkServiced_scan 0 [] [] [] (Split content CHR 0x0A)
      in b\<lparr>BlkServiced.Timestamp := now,
           BlkServiced.Devices := (if length tmpContent \<noteq> 0
                       then devices @ [BlkDevice_create BlkDevice0 tmpContent]
                       else devices)\<rparr>)"


section \<open>The later version: ReadStats (part_002)\<close>

text \<open>
  \<^verbatim>\<open>CPUStat\<close> and \<^verbatim>\<open>MemStat\<close> embed \<^verbatim>\<open>CommonFields\<close>; its fields are written out.
  What \<^verbatim>\<open>time.Now()\<close> gives is the parameter \<open>now\<close> of the parsers.
\<close>

record CPUStat =
  path :: string
  Timestamp :: time
  User :: uint64
  System :: uint64

record MemStat =
  path :: string
  Timestamp :: time
  RSS :: uint64
  Cache :: uint64

record ContainerStats =
  Memory :: MemStat
  CPU :: CPUStat
  BlkIO :: BlkIOStat

text \<open>The map \<^verbatim>\<open>statsHolder.stats\<close>; a nil \<^verbatim>\<open>statsHolder\<close> is \<open>None\<close>.\<close>

type_synonym Stats = "string \<rightharpoonup> ContainerStats"

definition BlkServiced0 :: BlkServiced where
  "BlkServiced0 = \<lparr>BlkServiced.path = [], Timestamp = 0, Devices = []\<rparr>"

definition ContainerStats0 :: ContainerStats where
  "ContainerStats0 =
     \<lparr>Memory = \<lparr>MemStat.path = [], Timestamp = 0, RSS = 0, Cache = 0\<rparr>,
      CPU = \<lparr>CPUStat.path = [], Timestamp = 0, User = 0, System = 0\<rparr>,
      BlkIO = \<lparr>Bytes = BlkServiced0, IOPS = BlkServiced0\<rparr>\<rparr>"

definition memFile :: string where
  "memFile = ''memory.stat''"

definition cPUFile :: string where
  "cPUFile = ''cpuacct.stat''"

definition blkIOIOPSFile :: string where
  "blkIOIOPSFile = ''blkio.throttle.io_serviced''"

definition blkIOBytesFile :: string where
  "blkIOBytesFile = ''blkio.throttle.io_service_bytes''"

fun CPUStat_loop :: "nat \<Rightarrow> string list \<Rightarrow> CPUStat \<Rightarrow> CPUStat" where
  "CPUStat_loop i [] c = c"
| "CPUStat_loop i (line # lines) c =
     (let fields = Fields line in
      if length fields < 2 then CPUStat_loop (i + 1) lines c
      else if i = 0
        then CPUStat_loop (i + 1) lines (c\<lparr>CPUStat.User := fst (ParseUint (fields ! 1))\<rparr>)
      else if i = 1
        then CPUStat_loop (i + 1) lines (c\<lparr>CPUStat.System := fst (ParseUint (fields ! 1))\<rparr>)
      else CPUStat_loop (i + 1) lines c)"

definition CPUStat_create :: "time \<Rightarrow> string \<Rightarrow> CPUStat \<Rightarrow> CPUStat" where
  "CPUStat_create now content c =
     (let lines = Split content CHR 0x0A in
      if length lines < 2 then c
      else (CPUStat_loop 0 lines c)\<lparr>CPUStat.Timestamp := now\<rparr>)"

fun MemStat_loop :: "nat \<Rightarrow> string list \<Rightarrow> MemStat \<Rightarrow> MemStat" where
  "MemStat_loop i [] m = m"
| "MemStat_loop i (line # lines) m =
     (let fields = Fields line in
      if length fields < 2 then MemStat_loop (i + 1) lines m
      else if i = 0
        then MemStat_loop (i + 1) lines (m\<lparr>MemStat.Cache := fst (ParseUint (fields ! 1))\<rparr>)
      else if i = 1
        then MemStat_loop (i + 1) lines (m\<lparr>MemStat.RSS := fst (ParseUint (fields ! 1))\<rparr>)
      else MemStat_loop (i + 1) lines m)"

definition MemStat_create :: "time \<Rightarrow> string \<Rightarrow> MemStat \<Rightarrow> MemStat" where
  "MemStat_create now content m =
     (let lines = Split content CHR 0x0A in
      if length lines < 2 then m
      else (MemStat_loop 0 lines m)\<lparr>MemStat.Timestamp := now\<rparr>)"

text \<open>
  \<^verbatim>\<open>readFile(path, id)\<close>: on a file that does not exist it deletes the key from the map and
  returns empty content and no error.
\<close>

definition readFile :: "filesystem \<Rightarrow> string \<Rightarrow> string \<Rightarrow> Stats \<Rightarrow> Stats \<times> (error + string)" where
  "readFile fs p cid stats =
     (case fs p of
        Inl e \<Rightarrow> if IsNotExist e then (stats(cid := None), Inr []) else (stats, Inl e)
      | Inr b \<Rightarrow> (stats, Inr b))"

text \<open>
  How a statement of the loop body of \<^verbatim>\<open>ReadStats\<close> ends: control goes on, the function
  returns an error, or a nil pointer is dereferenced. Each carries the map as it is then.

  \<open>cs\<close> is the entry the loop variable points to; the body reads the paths through it.
  The parsers are called through \<^verbatim>\<open>statsHolder.stats[id]\<close>, a lookup in the map as
  \<^verbatim>\<open>readFile\<close> left it: for a key that is gone the lookup gives a nil pointer, and taking
  the field of the entry behind it panics.
\<close>

datatype stats_flow = Next Stats | ReturnError Stats error | NilDereference Stats

definition ReadStats_memory :: "filesystem \<Rightarrow> time \<Rightarrow> string \<Rightarrow> ContainerStats \<Rightarrow> Stats \<Rightarrow> stats_flow" where
  "ReadStats_memory fs now cid cs stats =
     (if MemStat.path (Memory cs) \<noteq> [] then
        (case readFile fs (MemStat.path (Memory cs)) cid stats of
           (stats1, Inl e) \<Rightarrow> ReturnError stats1 e
         | (stats1, Inr b) \<Rightarrow>
             (case stats1 cid of
                None \<Rightarrow> NilDereference stats1
              | Some c \<Rightarrow> Next (stats1(cid \<mapsto> c\<lparr>Memory := MemStat_create now b (Memory c)\<rparr>))))
      else Next stats)"

definition ReadStats_cpu :: "filesystem \<Rightarrow> time \<Rightarrow> string \<Rightarrow> ContainerStats \<Rightarrow> Stats \<Rightarrow> stats_flow" where
  "ReadStats_cpu fs now cid cs stats =
     (if CPUStat.path (CPU cs) \<noteq> [] then
        (case readFile fs (CPUStat.path (CPU cs)) cid stats of
           (stats1, Inl e) \<Rightarrow> ReturnError stats1 e
         | (stats1, Inr b) \<Rightarrow>
             (case stats1 cid of
                None \<Rightarrow> NilDereference stats1
              | Some c \<Rightarrow> Next (stats1(cid \<mapsto> c\<lparr>CPU := CPUStat_create now b (CPU c)\<rparr>))))
      else Next stats)"

definition ReadStats_bytes :: "filesystem \<Rightarrow> time \<Rightarrow> string \<Rightarrow> ContainerStats \<Rightarrow> Stats \<Rightarrow> stats_flow" where
  "ReadStats_bytes fs now cid cs stats =
     (if BlkServiced.path (Bytes (BlkIO cs)) \<noteq> [] then
        (case readFile fs (BlkServiced.path (Bytes (BlkIO cs))) cid stats of
           (stats1, Inl e) \<Rightarrow> ReturnError stats1 e
         | (stats1, Inr b) \<Rightarrow>
             (case stats1 cid of
                None \<Rightarrow> NilDereference stats1
              | Some c \<Rightarrow>
                  Next (stats1(cid \<mapsto>
                    c\<lparr>BlkIO := (BlkIO c)\<lparr>Bytes := BlkServiced_create now b (Bytes (BlkIO c))\<rparr>\<rparr>))))
      else Next stats)"

definition ReadStats_iops :: "filesystem \<Rightarrow> time \<Rightarrow> string \<Rightarrow> ContainerStats \<Rightarrow> Stats \<Rightarrow> stats_flow" where
  "ReadStats_iops fs now cid cs stats =
     (if BlkServiced.path (IOPS (BlkIO cs)) \<noteq> [] then
        (case readFile fs (BlkServiced.path (IOPS (BlkIO cs))) cid stats of
           (stats1, Inl e) \<Rightarrow> ReturnError stats1 e
         | (stats1, Inr b) \<Rightarrow>
             (case stats1 cid of
                None \<Rightarrow> NilDereference stats1
              | Some c \<Rightarrow>
                  Next (stats1(cid \<mapsto>
                    c\<lparr>BlkIO := (BlkIO c)\<lparr>IOPS := BlkServiced_create now b (IOPS (BlkIO c))\<rparr>\<rparr>))))
      else Next stats)"

definition ReadStats_body :: "filesystem \<Rightarrow> time \<Rightarrow> string \<Rightarrow> ContainerStats \<Rightarrow> Stats \<Rightarrow> stats_flow" where
  "ReadStats_body fs now cid cs stats =
     (case ReadStats_memory fs now cid cs stats of
        Next stats1 \<Rightarrow>
          (case ReadStats_cpu fs now cid cs stats1 of
             Next stats2 \<Rightarrow>
               (case ReadStats_bytes fs now cid cs stats2 of
                  Next stats3 \<Rightarrow> ReadStats_iops fs now cid cs stats3
                | f \<Rightarrow> f)
           | f \<Rightarrow> f)
      | f \<Rightarrow> f)"

fun ReadStats_loop :: "filesystem \<Rightarrow> time \<Rightarrow> string list \<Rightarrow> Stats \<Rightarrow> stats_flow" where
  "ReadStats_loop fs now [] stats = Next stats"
| "ReadStats_loop fs now (cid # ids) stats =
     (case stats cid of
        None \<Rightarrow> ReadStats_loop fs now ids stats
      | Some cs \<Rightarrow>
          (case ReadStats_body fs now cid cs stats of
             Next stats' \<Rightarrow> ReadStats_loop fs now ids stats'
           | f \<Rightarrow> f))"

text \<open>\<^verbatim>\<open>ReadStats\<close>: the map of \<^verbatim>\<open>statsHolder\<close> after the call, and what the call gives back.\<close>

definition ReadStats :: "filesystem \<Rightarrow> time \<Rightarrow> string list \<Rightarrow> Stats option \<Rightarrow> Stats option \<times> Stats result" where
  "ReadStats fs now ids holder =
     (case holder of
        None \<Rightarrow> (None, Err (Errorf ''not initialized''))
      | Some stats \<Rightarrow>
          (case ReadStats_loop fs now ids stats of
             Next stats' \<Rightarrow> (Some stats', Ok stats')
           | ReturnError stats' e \<Rightarrow> (Some stats', Err e)
           | NilDereference stats' \<Rightarrow> (Some stats', NilPointerPanic)))"

text \<open>This version's \<^verbatim>\<open>walkFn\<close> and \<^verbatim>\<open>updatePaths\<close>.\<close>

definition walkFn_part002 :: "(string \<Rightarrow> string list) \<Rightarrow> WalkCall \<Rightarrow> Stats \<Rightarrow> Stats \<times> error option" where
  "walkFn_part002 re c stats =
     (case err c of
        Some e \<Rightarrow> (stats, None)
      | None \<Rightarrow>
          (let matches = re (filePath c) in
           if length matches < 2 then (stats, None)
           else (let cid = matches ! 1 in
                 if IsDir (info c) then
                   (case stats cid of
                      None \<Rightarrow> (stats(cid \<mapsto> ContainerStats0), None)
                    | Some cs \<Rightarrow> (stats, None))
                 else
                   (case stats cid of
                      None \<Rightarrow> (stats, None)
                    | Some cs \<Rightarrow>
                        (let baseName = Base (Name (info c)) in
                         if baseName = memFile then
                           (stats(cid \<mapsto> cs\<lparr>Memory := (Memory cs)\<lparr>MemStat.path := filePath c\<rparr>\<rparr>), None)
                         else if baseName = cPUFile then
                           (stats(cid \<mapsto> cs\<lparr>CPU := (CPU cs)\<lparr>CPUStat.path := filePath c\<rparr>\<rparr>), None)
                         else if baseName = blkIOIOPSFile then
                           (stats(cid \<mapsto> cs\<lparr>BlkIO := (BlkIO cs)\<lparr>Bytes :=
                              (Bytes (BlkIO cs))\<lparr>BlkServiced.path := filePath c\<rparr>\<rparr>\<rparr>), None)
                         else if baseName = blkIOBytesFile then
                           (stats(cid \<mapsto> cs\<lparr>BlkIO := (BlkIO cs)\<lparr>IOPS :=
                              (IOPS (BlkIO cs))\<lparr>BlkServiced.path := filePath c\<rparr>\<rparr>\<rparr>), None)
                         else (stats, None))))))"

definition updatePaths_part002 :: "(string \<Rightarrow> string list) \<Rightarrow> WalkCall list \<Rightarrow> Stats \<Rightarrow> Stats \<times> error option" where
  "updatePaths_part002 re calls stats =
     (case Walk (walkFn_part002 re) calls stats of
        (stats', None) \<Rightarrow> (stats', None)
      | (stats', Some e) \<Rightarrow> (stats', Some (ErrWalking e)))"

section \<open>Notions the properties are stated with\<close>

subsection \<open>Blocks of operation rows\<close>

definition opNames :: "string list" where
  "opNames = [''Read'', ''Write'', ''Sync'', ''Async'']"

text \<open>The line is a row whose operation label is one of the four.\<close>

definition recognized :: "string \<Rightarrow> bool" where
  "recognized l \<longleftrightarrow> Fields l ! 1 \<in> set opNames"

text \<open>
  The lines \<open>ls\<close> are the block of the device \<open>d\<close>: every line is a row of three fields
  whose first field is \<open>d\<close>, and for each of Read, Write, Sync and Async exactly one row
  carries that label. Rows with other labels (the kernel writes a Total row) may stand
  anywhere in the block.
\<close>

definition opBlock :: "string \<Rightarrow> string list \<Rightarrow> bool" where
  "opBlock d ls \<longleftrightarrow>
     (\<forall>l\<in>set ls. length (Fields l) = 3 \<and> Fields l ! 0 = d) \<and>
     (\<forall>op\<in>set opNames. length (filter (\<lambda>l. Fields l ! 1 = op) ls) = 1)"

text \<open>All lines are rows of the device \<open>d\<close>.\<close>

definition sameDevice :: "string \<Rightarrow> string list \<Rightarrow> bool" where
  "sameDevice d ls \<longleftrightarrow> (\<forall>l\<in>set ls. length (Fields l) = 3 \<and> Fields l ! 0 = d)"

text \<open>What \<^verbatim>\<open>BlkServiced.create\<close> does after its loop with the loop's result.\<close>

definition BlkServiced_flush :: "string list \<times> BlkDevice list \<Rightarrow> BlkDevice list" where
  "BlkServiced_flush r =
     (if length (fst r) \<noteq> 0 then snd r @ [BlkDevice_create BlkDevice0 (fst r)] else snd r)"

text \<open>A file of two devices, as the kernel writes it, with its Total rows.\<close>

definition twoDevices :: "(string \<times> string list) list" where
  "twoDevices =
     [(''8:0'', [''8:0 Read 1'', ''8:0 Write 2'', ''8:0 Sync 3'', ''8:0 Async 4'', ''8:0 Total 10'']),
      (''8:16'', [''8:16 Read 5'', ''8:16 Write 6'', ''8:16 Sync 7'', ''8:16 Async 8'',
                 ''8:16 Total 26''])]"

definition twoDevicesContent :: string where
  "twoDevicesContent =
     concat (map (\<lambda>l. l @ [CHR 0x0A]) (concat (map snd twoDevices) @ [''Total 36'']))"

subsection \<open>The counter a row names\<close>

text \<open>What a row with the operation label \<open>op\<close> and the value \<open>unit\<close> does to the four counters.\<close>

definition setCounter :: "string \<Rightarrow> string \<Rightarrow> BlkDevice \<Rightarrow> BlkDevice" where
  "setCounter op unit b =
     (if op = ''Read'' then b\<lparr>Read := fst (ParseUint unit)\<rparr>
      else if op = ''Write'' then b\<lparr>Write := fst (ParseUint unit)\<rparr>
      else if op = ''Sync'' then b\<lparr>Sync := fst (ParseUint unit)\<rparr>
      else if op = ''Async'' then b\<lparr>Async := fst (ParseUint unit)\<rparr>
      else b)"

definition setCounter_part005 :: "string \<Rightarrow> string \<Rightarrow> BlkDevice_part005 \<Rightarrow> BlkDevice_part005" where
  "setCounter_part005 op unit b =
     (if op = ''Read'' then b\<lparr>BlkDevice_part005.Read := fst (ParseUint unit)\<rparr>
      else if op = ''Write'' then b\<lparr>BlkDevice_part005.Write := fst (ParseUint unit)\<rparr>
      else if op = ''Sync'' then b\<lparr>BlkDevice_part005.Sync := fst (ParseUint unit)\<rparr>
      else if op = ''Async'' then b\<lparr>BlkDevice_part005.Async := fst (ParseUint unit)\<rparr>
      else b)"

text \<open>
  What the device identifier of a row does to Major and Minor, and what the rows of a list
  do, one after the other, to the counters.
\<close>

definition setDevice :: "string \<Rightarrow> BlkDevice \<Rightarrow> BlkDevice" where
  "setDevice deviceStr b =
     (let device = Split deviceStr CHR '':''
      in if length device > 1
         then b\<lparr>Major := fst (ParseUint (device ! 0)), Minor := fst (ParseUint (device ! 1))\<rparr>
         else b)"

fun setCounters :: "BlkDevice \<Rightarrow> string list \<Rightarrow> BlkDevice" where
  "setCounters b [] = b"
| "setCounters b (l # ls) = setCounters (setCounter (Fields l ! 1) (Fields l ! 2) b) ls"

subsection \<open>Calls of the walker\<close>

text \<open>The call visits, without error, a directory whose path the pattern matches with the capture \<open>cid\<close>.\<close>

definition dirMatch :: "(string \<Rightarrow> string list) \<Rightarrow> WalkCall \<Rightarrow> string \<Rightarrow> bool" where
  "dirMatch re c cid \<longleftrightarrow>
     err c = None \<and> IsDir (info c) \<and> 2 \<le> length (re (filePath c)) \<and> re (filePath c) ! 1 = cid"

text \<open>A pattern and calls for one container, and a call for an entry that has vanished.\<close>

definition exampleRe :: "string \<Rightarrow> string list" where
  "exampleRe p = (if take 20 p = ''/cg/docker-abc.scope'' then [p, ''abc''] else [])"

definition dirCall :: WalkCall where
  "dirCall = \<lparr>filePath = ''/cg/docker-abc.scope'', info = \<lparr>Name = ''docker-abc.scope'', IsDir = True\<rparr>, err = None\<rparr>"

definition memCall :: WalkCall where
  "memCall = \<lparr>filePath = ''/cg/docker-abc.scope/memory.stat'', info = \<lparr>Name = ''memory.stat'', IsDir = False\<rparr>, err = None\<rparr>"

definition iopsCall :: WalkCall where
  "iopsCall = \<lparr>filePath = ''/cg/docker-abc.scope/blkio.throttle.io_serviced'',
                info = \<lparr>Name = ''blkio.throttle.io_serviced'', IsDir = False\<rparr>, err = None\<rparr>"

definition bytesCall :: WalkCall where
  "bytesCall = \<lparr>filePath = ''/cg/docker-abc.scope/blkio.throttle.io_service_bytes'',
                info = \<lparr>Name = ''blkio.throttle.io_service_bytes'', IsDir = False\<rparr>, err = None\<rparr>"

definition goneCall :: WalkCall where
  "goneCall = \<lparr>filePath = ''/cg/docker-old.scope'', info = \<lparr>Name = ''docker-old.scope'', IsDir = True\<rparr>,
                err = Some ErrNotExist\<rparr>"

subsection \<open>Decimal numbers\<close>

text \<open>
  The number a string of decimal digits denotes, and the strings that denote a number
  that fits 64 bits.
\<close>

fun decimalFrom :: "nat \<Rightarrow> string \<Rightarrow> nat" where
  "decimalFrom n [] = n"
| "decimalFrom n (c # cs) = decimalFrom (10 * n + digitVal c) cs"

definition decimal :: "string \<Rightarrow> nat" where
  "decimal s = decimalFrom 0 s"

definition numeric :: "string \<Rightarrow> bool" where
  "numeric s \<longleftrightarrow> s \<noteq> [] \<and> list_all isDigit s \<and> decimal s < 2 ^ 64"

text \<open>A CPU accounting file.\<close>

definition cpuContent :: string where
  "cpuContent = ''user 5\<newline>system 7\<newline>''"

subsection \<open>File reads of a snapshot\<close>

text \<open>Reading the path fails because the file does not exist; it fails for another reason.\<close>

definition missing :: "filesystem \<Rightarrow> string \<Rightarrow> bool" where
  "missing fs p = (case fs p of Inl e \<Rightarrow> IsNotExist e | Inr b \<Rightarrow> False)"

definition otherError :: "filesystem \<Rightarrow> string \<Rightarrow> bool" where
  "otherError fs p = (case fs p of Inl e \<Rightarrow> \<not> IsNotExist e | Inr b \<Rightarrow> False)"

text \<open>The error of the first read that fails, when the paths are read in this order.\<close>

fun firstError :: "filesystem \<Rightarrow> string list \<Rightarrow> error option" where
  "firstError fs [] = None"
| "firstError fs (p # ps) = (case fs p of Inl e \<Rightarrow> Some e | Inr b \<Rightarrow> firstError fs ps)"

text \<open>The files an entry is bound to, in the order in which the snapshot reads them.\<close>

definition boundPaths :: "ContainerStat \<Rightarrow> string list" where
  "boundPaths cs =
     filter (\<lambda>p. p \<noteq> []) [CMemStat.path (ContainerStat.Memory cs), CCPUStat.path (ContainerStat.CPU cs)]"

definition boundPaths_part002 :: "ContainerStats \<Rightarrow> string list" where
  "boundPaths_part002 cs =
     filter (\<lambda>p. p \<noteq> [])
       [MemStat.path (Memory cs), CPUStat.path (CPU cs),
        BlkServiced.path (Bytes (BlkIO cs)), BlkServiced.path (IOPS (BlkIO cs))]"


text \<open>
  For every entry under one of the keys \<open>ids\<close>, the first read that fails, if one does,
  fails because the file does not exist: the body of the loop of \<^verbatim>\<open>ReadCgroups\<close> ends for
  it without returning an error.
\<close>

definition endsWithoutError :: "filesystem \<Rightarrow> string list \<Rightarrow> cgroups \<Rightarrow> bool" where
  "endsWithoutError fs ids cg \<longleftrightarrow>
     (\<forall>k\<in>set ids. case cg k of None \<Rightarrow> True
                     | Some c \<Rightarrow> (case firstError fs (boundPaths c) of
                                   None \<Rightarrow> True
                                 | Some e \<Rightarrow> IsNotExist e))"

definition noOtherError_part002 :: "filesystem \<Rightarrow> string list \<Rightarrow> Stats \<Rightarrow> bool" where
  "noOtherError_part002 fs ids stats \<longleftrightarrow>
     (\<forall>k\<in>set ids. case stats k of None \<Rightarrow> True
                     | Some c \<Rightarrow> \<forall>p\<in>set (boundPaths_part002 c). \<not> otherError fs p)"

definition allReadable :: "filesystem \<Rightarrow> string list \<Rightarrow> Stats \<Rightarrow> bool" where
  "allReadable fs ids stats \<longleftrightarrow>
     (\<forall>k\<in>set ids. case stats k of None \<Rightarrow> True
                     | Some c \<Rightarrow> firstError fs (boundPaths_part002 c) = None)"

text \<open>Two maps agree on every key but \<open>cid\<close>.\<close>

definition sameElsewhere :: "string \<Rightarrow> Stats \<Rightarrow> Stats \<Rightarrow> bool" where
  "sameElsewhere cid s s' \<longleftrightarrow> (\<forall>k. k \<noteq> cid \<longrightarrow> s' k = s k)"

text \<open>
  The four statements of the body of \<^verbatim>\<open>ReadStats\<close> have one shape, \<open>readStep\<close>, with the
  path and the parser as parameters; the body is the chain of the four.
\<close>

definition readStep ::
  "filesystem \<Rightarrow> string \<Rightarrow> string \<Rightarrow> (string \<Rightarrow> ContainerStats \<Rightarrow> ContainerStats) \<Rightarrow> Stats \<Rightarrow> stats_flow" where
  "readStep fs p cid upd stats =
     (if p \<noteq> [] then
        (case readFile fs p cid stats of
           (stats1, Inl e) \<Rightarrow> ReturnError stats1 e
         | (stats1, Inr b) \<Rightarrow>
             (case stats1 cid of
                None \<Rightarrow> NilDereference stats1
              | Some c \<Rightarrow> Next (stats1(cid \<mapsto> upd b c))))
      else Next stats)"

fun readChain ::
  "filesystem \<Rightarrow> string \<Rightarrow> (string \<times> (string \<Rightarrow> ContainerStats \<Rightarrow> ContainerStats)) list \<Rightarrow> Stats \<Rightarrow> stats_flow" where
  "readChain fs cid [] stats = Next stats"
| "readChain fs cid ((p, upd) # steps) stats =
     (case readStep fs p cid upd stats of
        Next stats1 \<Rightarrow> readChain fs cid steps stats1
      | f \<Rightarrow> f)"


text \<open>
  A file system with a memory file that can be read, one whose read is denied and one that
  is gone, and maps with entries bound to them.
\<close>

definition exampleFs :: filesystem where
  "exampleFs p =
     (if p = ''/cg/a/memory.stat'' then Inr ''cache 100\<newline>rss 200\<newline>''
      else if p = ''/cg/b/memory.stat'' then Inl (ErrOther 13)
      else Inl ErrNotExist)"

definition entryAt :: "string \<Rightarrow> ContainerStat" where
  "entryAt p = ContainerStat0\<lparr>ContainerStat.Memory := \<lparr>CMemStat.path = p, RSS = 0, Cache = 0\<rparr>\<rparr>"


definition deniedCgroups :: cgroups where
  "deniedCgroups = [''a'' \<mapsto> entryAt ''/cg/a/memory.stat'', ''b'' \<mapsto> entryAt ''/cg/b/memory.stat'']"


text \<open>
  An entry whose memory file is gone and whose CPU file is denied, and a map with a denied
  and a missing memory file for the later version.
\<close>

definition hiddenErrorFs :: filesystem where
  "hiddenErrorFs p = (if p = ''/cg/x/cpuacct.stat'' then Inl (ErrOther 13) else Inl ErrNotExist)"

definition hiddenErrorEntry :: ContainerStat where
  "hiddenErrorEntry =
     \<lparr>ContainerStat.Memory = \<lparr>CMemStat.path = ''/cg/x/memory.stat'', RSS = 0, Cache = 0\<rparr>,
      CPU = \<lparr>CCPUStat.path = ''/cg/x/cpuacct.stat'', User = 0, System = 0\<rparr>\<rparr>"

definition entryAt_part002 :: "string \<Rightarrow> ContainerStats" where
  "entryAt_part002 p =
     ContainerStats0\<lparr>Memory := \<lparr>MemStat.path = p, Timestamp = 0, RSS = 0, Cache = 0\<rparr>\<rparr>"

definition goneStats :: Stats where
  "goneStats = [''a'' \<mapsto> entryAt_part002 ''/cg/a/memory.stat'', ''c'' \<mapsto> entryAt_part002 ''/cg/c/memory.stat'']"

definition deniedGoneStats :: Stats where
  "deniedGoneStats =
     [''b'' \<mapsto> entryAt_part002 ''/cg/b/memory.stat'', ''c'' \<mapsto> entryAt_part002 ''/cg/c/memory.stat'']"

definition deniedStats :: Stats where
  "deniedStats = [''a'' \<mapsto> entryAt_part002 ''/cg/a/memory.stat'', ''b'' \<mapsto> entryAt_part002 ''/cg/b/memory.stat'']"

section \<open>Properties of the block-I/O parser\<close>

lemma scan_same:
  "sameDevice d ls \<Longrightarrow>
   BlkServiced_scan i d tmp devs (ls @ after) =
   BlkServiced_scan (i + length ls) d (tmp @ ls) devs after"
proof (induction ls arbitrary: i tmp)
  case Nil
  then show ?case by simp
next
  case (Cons l ls)
  from Cons.prems have l: "length (Fields l) = 3" "Fields l ! 0 = d" and rest: "sameDevice d ls"
    by (simp_all add: sameDevice_def)
  have "BlkServiced_scan i d tmp devs ((l # ls) @ after) =
        BlkServiced_scan (i + 1) d (tmp @ [l]) devs (ls @ after)"
    using l by (simp add: Let_def)
  also have "\<dots> = BlkServiced_scan (i + 1 + length ls) d ((tmp @ [l]) @ ls) devs after"
    by (rule Cons.IH [OF rest])
  finally show ?case by simp
qed

lemma scan_rest:
  "\<forall>l\<in>set rest. length (Fields l) \<noteq> 3 \<Longrightarrow> BlkServiced_scan i d tmp devs rest = (tmp, devs)"
  by (induction rest arbitrary: i) (simp_all add: Let_def)

lemma distinct_adj_step:
  "distinct_adj (map fst ((d, ls) # bs)) \<Longrightarrow>
   distinct_adj (map fst bs) \<and> (bs \<noteq> [] \<longrightarrow> fst (hd bs) \<noteq> d)"
  by (cases bs) auto

lemma scan_blocks:
  assumes "\<forall>(d, ls)\<in>set bs. ls \<noteq> [] \<and> sameDevice d ls"
    and "distinct_adj (map fst bs)"
    and "bs \<noteq> [] \<longrightarrow> fst (hd bs) \<noteq> lastd"
    and "0 < i" and "tmp \<noteq> []"
    and "\<forall>l\<in>set rest. length (Fields l) \<noteq> 3"
  shows "BlkServiced_flush (BlkServiced_scan i lastd tmp devs (concat (map snd bs) @ rest)) =
         devs @ [BlkDevice_create BlkDevice0 tmp] @ map (\<lambda>(d, ls). BlkDevice_create BlkDevice0 ls) bs"
  using assms
proof (induction bs arbitrary: i lastd tmp devs)
  case Nil
  then show ?case by (simp add: scan_rest BlkServiced_flush_def)
next
  case (Cons b bs)
  obtain d ls where b: "b = (d, ls)" by (cases b)
  from Cons.prems(1) b have ne: "ls \<noteq> []" and sd: "sameDevice d ls" by auto
  then obtain l ls' where ls: "ls = l # ls'" by (cases ls) auto
  from sd ls have l: "length (Fields l) = 3" "Fields l ! 0 = d" and sd': "sameDevice d ls'"
    by (simp_all add: sameDevice_def)
  from Cons.prems(3) b have dl: "d \<noteq> lastd" by simp
  have "BlkServiced_scan i lastd tmp devs (concat (map snd (b # bs)) @ rest) =
        BlkServiced_scan (i + 1) d [l] (devs @ [BlkDevice_create BlkDevice0 tmp])
          (ls' @ concat (map snd bs) @ rest)"
    using l dl \<open>0 < i\<close> by (simp add: b ls Let_def)
  also have "\<dots> = BlkServiced_scan (i + 1 + length ls') d ([l] @ ls')
        (devs @ [BlkDevice_create BlkDevice0 tmp]) (concat (map snd bs) @ rest)"
    by (rule scan_same [OF sd'])
  finally have eq: "BlkServiced_scan i lastd tmp devs (concat (map snd (b # bs)) @ rest) =
      BlkServiced_scan (i + 1 + length ls') d ls (devs @ [BlkDevice_create BlkDevice0 tmp])
        (concat (map snd bs) @ rest)"
    by (simp add: ls)
  have adj: "distinct_adj (map fst bs)" and hdne: "bs \<noteq> [] \<longrightarrow> fst (hd bs) \<noteq> d"
    using Cons.prems(2) b distinct_adj_step [of d ls bs] by simp_all
  have "BlkServiced_flush (BlkServiced_scan (i + 1 + length ls') d ls
          (devs @ [BlkDevice_create BlkDevice0 tmp]) (concat (map snd bs) @ rest)) =
        (devs @ [BlkDevice_create BlkDevice0 tmp]) @ [BlkDevice_create BlkDevice0 ls] @
        map (\<lambda>(d, ls). BlkDevice_create BlkDevice0 ls) bs"
    by (rule Cons.IH) (use Cons.prems adj hdne ne in auto)
  then show ?case unfolding eq by (simp add: b)
qed

text \<open>
  Content made of blocks of rows, each block the rows of one device and neighbouring blocks
  of different devices, followed by lines that are no rows: one record per block, made from
  the lines of the block.
\<close>

lemma BlkServiced_create_blocks:
  assumes split: "Split content CHR 0x0A = concat (map snd bs) @ rest"
    and blocks: "\<forall>(d, ls)\<in>set bs. ls \<noteq> [] \<and> sameDevice d ls"
    and adj: "distinct_adj (map fst bs)"
    and rest: "\<forall>l\<in>set rest. length (Fields l) \<noteq> 3"
  shows "BlkServiced.Devices (BlkServiced_create now content b) =
         map (\<lambda>(d, ls). BlkDevice_create BlkDevice0 ls) bs"
proof -
  have D: "BlkServiced.Devices (BlkServiced_create now content b) =
      BlkServiced_flush (BlkServiced_scan 0 [] [] [] (concat (map snd bs) @ rest))"
    by (simp add: BlkServiced_create_def BlkServiced_flush_def split split: prod.splits)
  show ?thesis
  proof (cases bs)
    case Nil
    then show ?thesis using rest by (simp add: D scan_rest BlkServiced_flush_def)
  next
    case (Cons b0 bs')
    obtain d ls where b0: "b0 = (d, ls)" by (cases b0)
    from blocks Cons b0 have ne: "ls \<noteq> []" and sd: "sameDevice d ls" by auto
    then obtain l ls' where ls: "ls = l # ls'" by (cases ls) auto
    from sd ls have l: "length (Fields l) = 3" "Fields l ! 0 = d" and sd': "sameDevice d ls'"
      by (simp_all add: sameDevice_def)
    have "BlkServiced_scan 0 [] [] [] (concat (map snd bs) @ rest) =
          BlkServiced_scan 1 d [l] [] (ls' @ concat (map snd bs') @ rest)"
      using l by (simp add: Cons b0 ls Let_def)
    also have "\<dots> = BlkServiced_scan (1 + length ls') d ([l] @ ls') [] (concat (map snd bs') @ rest)"
      by (rule scan_same [OF sd'])
    finally have eq: "BlkServiced_scan 0 [] [] [] (concat (map snd bs) @ rest) =
          BlkServiced_scan (1 + length ls') d ls [] (concat (map snd bs') @ rest)"
      by (simp add: ls)
    have adj': "distinct_adj (map fst bs')" and hdne: "bs' \<noteq> [] \<longrightarrow> fst (hd bs') \<noteq> d"
      using adj Cons b0 distinct_adj_step [of d ls bs'] by simp_all
    have "BlkServiced_flush (BlkServiced_scan (1 + length ls') d ls [] (concat (map snd bs') @ rest)) =
       [] @ [BlkDevice_create BlkDevice0 ls] @ map (\<lambda>(d, ls). BlkDevice_create BlkDevice0 ls) bs'"
      by (rule scan_blocks) (use blocks Cons adj' hdne ne rest in auto)
    then show ?thesis unfolding D eq by (simp add: Cons b0)
  qed
qed

lemma unique_row:
  assumes "length (filter P ls) = 1" and "l \<in> set ls" and "P l" and "l' \<in> set ls" and "P l'"
  shows "l' = l"
proof -
  from assms(1) obtain x where x: "filter P ls = [x]"
    by (cases "filter P ls") auto
  from assms(2-5) have "l \<in> set (filter P ls)" "l' \<in> set (filter P ls)" by simp_all
  then show ?thesis unfolding x by simp
qed

lemma opBlock_sameDevice: "opBlock d ls \<Longrightarrow> ls \<noteq> [] \<and> sameDevice d ls"
  by (auto simp: opBlock_def sameDevice_def opNames_def)

lemma BlkDevice_line_row:
  "length (Fields l) = 3 \<Longrightarrow>
   BlkDevice_line b l = setCounter (Fields l ! 1) (Fields l ! 2) (setDevice (Fields l ! 0) b)"
  by (simp add: BlkDevice_line_def setCounter_def setDevice_def Let_def)

lemma setDevice_idem: "setDevice d (setDevice d b) = setDevice d b"
  by (simp add: setDevice_def Let_def)

lemma setDevice_setCounter: "setDevice d (setCounter op u b) = setCounter op u (setDevice d b)"
  by (simp add: setDevice_def setCounter_def Let_def)

lemma setDevice_counters:
  "Read (setDevice d b) = Read b" "Write (setDevice d b) = Write b"
  "Sync (setDevice d b) = Sync b" "Async (setDevice d b) = Async b"
  by (simp_all add: setDevice_def Let_def)

lemma create_from_setDevice:
  "sameDevice d ls \<Longrightarrow> BlkDevice_create (setDevice d b) ls = setDevice d (setCounters b ls)"
proof (induction ls arbitrary: b)
  case Nil
  then show ?case by simp
next
  case (Cons l ls)
  from Cons.prems have l: "length (Fields l) = 3" "Fields l ! 0 = d" and rest: "sameDevice d ls"
    by (simp_all add: sameDevice_def)
  have "BlkDevice_create (setDevice d b) (l # ls) =
        BlkDevice_create (setDevice d (setCounter (Fields l ! 1) (Fields l ! 2) b)) ls"
    using l by (simp add: BlkDevice_line_row setDevice_idem setDevice_setCounter)
  also have "\<dots> = setDevice d (setCounters (setCounter (Fields l ! 1) (Fields l ! 2) b) ls)"
    by (rule Cons.IH [OF rest])
  finally show ?case by simp
qed

lemma create_rows:
  assumes "sameDevice d ls" and "ls \<noteq> []"
  shows "BlkDevice_create b ls = setDevice d (setCounters b ls)"
proof -
  from assms(2) obtain l ls' where ls: "ls = l # ls'" by (cases ls) auto
  from assms(1) ls have l: "length (Fields l) = 3" "Fields l ! 0 = d" and rest: "sameDevice d ls'"
    by (simp_all add: sameDevice_def)
  have "BlkDevice_create b ls =
        BlkDevice_create (setDevice d (setCounter (Fields l ! 1) (Fields l ! 2) b)) ls'"
    using l by (simp add: ls BlkDevice_line_row setDevice_setCounter)
  also have "\<dots> = setDevice d (setCounters (setCounter (Fields l ! 1) (Fields l ! 2) b) ls')"
    by (rule create_from_setDevice [OF rest])
  finally show ?thesis by (simp add: ls)
qed

lemma setCounters_recognized: "setCounters b (filter recognized ls) = setCounters b ls"
proof (induction ls arbitrary: b)
  case Nil
  then show ?case by simp
next
  case (Cons l ls)
  have "\<not> recognized l \<Longrightarrow> setCounter (Fields l ! 1) (Fields l ! 2) b = b"
    by (simp add: recognized_def opNames_def setCounter_def)
  then show ?case using Cons.IH by (cases "recognized l") simp_all
qed

lemma create_recognized:
  assumes "sameDevice d ls" and "filter recognized ls \<noteq> []"
  shows "BlkDevice_create b (filter recognized ls) = BlkDevice_create b ls"
proof -
  have sd: "sameDevice d (filter recognized ls)" using assms(1) by (simp add: sameDevice_def)
  from assms(2) have ne: "ls \<noteq> []" by auto
  show ?thesis
    by (simp add: create_rows [OF sd assms(2)] create_rows [OF assms(1) ne] setCounters_recognized)
qed

lemma setCounters_Read:
  "\<forall>l\<in>set ls. Fields l ! 1 = ''Read'' \<longrightarrow> Fields l ! 2 = u \<Longrightarrow>
   Read (setCounters b ls) =
     (if \<exists>l\<in>set ls. Fields l ! 1 = ''Read'' then fst (ParseUint u) else Read b)"
  by (induction ls arbitrary: b) (auto simp: setCounter_def)

lemma setCounters_Write:
  "\<forall>l\<in>set ls. Fields l ! 1 = ''Write'' \<longrightarrow> Fields l ! 2 = u \<Longrightarrow>
   Write (setCounters b ls) =
     (if \<exists>l\<in>set ls. Fields l ! 1 = ''Write'' then fst (ParseUint u) else Write b)"
  by (induction ls arbitrary: b) (auto simp: setCounter_def)

lemma setCounters_Sync:
  "\<forall>l\<in>set ls. Fields l ! 1 = ''Sync'' \<longrightarrow> Fields l ! 2 = u \<Longrightarrow>
   Sync (setCounters b ls) =
     (if \<exists>l\<in>set ls. Fields l ! 1 = ''Sync'' then fst (ParseUint u) else Sync b)"
  by (induction ls arbitrary: b) (auto simp: setCounter_def)

lemma setCounters_Async:
  "\<forall>l\<in>set ls. Fields l ! 1 = ''Async'' \<longrightarrow> Fields l ! 2 = u \<Longrightarrow>
   Async (setCounters b ls) =
     (if \<exists>l\<in>set ls. Fields l ! 1 = ''Async'' then fst (ParseUint u) else Async b)"
  by (induction ls arbitrary: b) (auto simp: setCounter_def)

lemma opBlock_create:
  assumes blk: "opBlock d ls" and l: "l \<in> set ls"
  shows "(Fields l ! 1 = ''Read'' \<longrightarrow> Read (BlkDevice_create b ls) = fst (ParseUint (Fields l ! 2))) \<and>
         (Fields l ! 1 = ''Write'' \<longrightarrow> Write (BlkDevice_create b ls) = fst (ParseUint (Fields l ! 2))) \<and>
         (Fields l ! 1 = ''Sync'' \<longrightarrow> Sync (BlkDevice_create b ls) = fst (ParseUint (Fields l ! 2))) \<and>
         (Fields l ! 1 = ''Async'' \<longrightarrow> Async (BlkDevice_create b ls) = fst (ParseUint (Fields l ! 2)))"
proof -
  from opBlock_sameDevice [OF blk] have c: "BlkDevice_create b ls = setDevice d (setCounters b ls)"
    by (simp add: create_rows)
  have one: "length (filter (\<lambda>l. Fields l ! 1 = op) ls) = 1" if "op \<in> set opNames" for op
    using blk that by (simp add: opBlock_def)
  have same: "\<forall>l'\<in>set ls. Fields l' ! 1 = op \<longrightarrow> Fields l' ! 2 = Fields l ! 2"
    if "op \<in> set opNames" and "Fields l ! 1 = op" for op
    using unique_row [OF one [OF that(1)], of l] l that(2) by auto
  have r: "Fields l ! 1 = ''Read'' \<Longrightarrow> Read (setCounters b ls) = fst (ParseUint (Fields l ! 2))"
    using setCounters_Read [OF same [of "''Read''"], of b] l by (auto simp: opNames_def)
  have w: "Fields l ! 1 = ''Write'' \<Longrightarrow> Write (setCounters b ls) = fst (ParseUint (Fields l ! 2))"
    using setCounters_Write [OF same [of "''Write''"], of b] l by (auto simp: opNames_def)
  have s: "Fields l ! 1 = ''Sync'' \<Longrightarrow> Sync (setCounters b ls) = fst (ParseUint (Fields l ! 2))"
    using setCounters_Sync [OF same [of "''Sync''"], of b] l by (auto simp: opNames_def)
  have a: "Fields l ! 1 = ''Async'' \<Longrightarrow> Async (setCounters b ls) = fst (ParseUint (Fields l ! 2))"
    using setCounters_Async [OF same [of "''Async''"], of b] l by (auto simp: opNames_def)
  show ?thesis using r w s a by (simp add: c setDevice_counters)
qed

lemma opBlock_recognized:
  assumes "opBlock d ls"
  shows "BlkDevice_create b ls = BlkDevice_create b (filter recognized ls)"
proof -
  from assms have "length (filter (\<lambda>l. Fields l ! 1 = ''Read'') ls) = 1"
    by (simp add: opBlock_def opNames_def)
  then obtain x where "filter (\<lambda>l. Fields l ! 1 = ''Read'') ls = [x]"
    by (cases "filter (\<lambda>l. Fields l ! 1 = ''Read'') ls") auto
  then have "x \<in> set (filter (\<lambda>l. Fields l ! 1 = ''Read'') ls)" by simp
  then have "x \<in> set (filter recognized ls)" by (simp add: recognized_def opNames_def)
  then have ne: "filter recognized ls \<noteq> []" by (metis empty_iff empty_set)
  from opBlock_sameDevice [OF assms] have "sameDevice d ls" by simp
  from create_recognized [OF this ne] show ?thesis by simp
qed

text \<open>
  C1. For content that consists of N blocks, one per device and neighbouring blocks of
  different devices, each block holding the four operation rows Read, Write, Sync and Async
  of its device (and possibly rows with other labels), followed only by lines that are no
  rows, \<^verbatim>\<open>BlkServiced.create\<close> yields exactly N records; the Read, Write, Sync and Async
  field of the k-th record holds what \<^verbatim>\<open>ParseUint\<close> gives for the third field of the row
  of the k-th block that carries that label; and the k-th record is the record that the
  four operation rows alone give, so the rows with an unrecognized label change no field.
\<close>

theorem C1_blocks_of_four_rows:
  assumes "Split content CHR 0x0A = concat (map snd blocks) @ rest"
    and "\<forall>(d, ls)\<in>set blocks. opBlock d ls"
    and "distinct_adj (map fst blocks)"
    and "\<forall>l\<in>set rest. length (Fields l) \<noteq> 3"
  shows "length (BlkServiced.Devices (BlkServiced_create now content b)) = length blocks \<and>
         (\<forall>k<length blocks. \<forall>l\<in>set (snd (blocks ! k)).
            (Fields l ! 1 = ''Read'' \<longrightarrow>
               Read (BlkServiced.Devices (BlkServiced_create now content b) ! k) =
                 fst (ParseUint (Fields l ! 2))) \<and>
            (Fields l ! 1 = ''Write'' \<longrightarrow>
               Write (BlkServiced.Devices (BlkServiced_create now content b) ! k) =
                 fst (ParseUint (Fields l ! 2))) \<and>
            (Fields l ! 1 = ''Sync'' \<longrightarrow>
               Sync (BlkServiced.Devices (BlkServiced_create now content b) ! k) =
                 fst (ParseUint (Fields l ! 2))) \<and>
            (Fields l ! 1 = ''Async'' \<longrightarrow>
               Async (BlkServiced.Devices (BlkServiced_create now content b) ! k) =
                 fst (ParseUint (Fields l ! 2)))) \<and>
         (\<forall>k<length blocks.
            BlkServiced.Devices (BlkServiced_create now content b) ! k =
              BlkDevice_create BlkDevice0 (filter recognized (snd (blocks ! k))))"
proof -
  have blocks': "\<forall>(d, ls)\<in>set blocks. ls \<noteq> [] \<and> sameDevice d ls"
    using assms(2) opBlock_sameDevice by fastforce
  have D: "BlkServiced.Devices (BlkServiced_create now content b) =
           map (\<lambda>(d, ls). BlkDevice_create BlkDevice0 ls) blocks"
    by (rule BlkServiced_create_blocks [OF assms(1) blocks' assms(3) assms(4)])
  have rows: "k < length blocks \<Longrightarrow> opBlock (fst (blocks ! k)) (snd (blocks ! k))" for k
    using assms(2) nth_mem [of k blocks] by (auto simp: case_prod_beta)
  have dev: "k < length blocks \<Longrightarrow>
      BlkServiced.Devices (BlkServiced_create now content b) ! k =
      BlkDevice_create BlkDevice0 (snd (blocks ! k))" for k
    by (simp add: D case_prod_beta)
  have 1: "length (BlkServiced.Devices (BlkServiced_create now content b)) = length blocks"
    by (simp add: D)
  have 2: "\<forall>k<length blocks. \<forall>l\<in>set (snd (blocks ! k)).
            (Fields l ! 1 = ''Read'' \<longrightarrow>
               Read (BlkServiced.Devices (BlkServiced_create now content b) ! k) =
                 fst (ParseUint (Fields l ! 2))) \<and>
            (Fields l ! 1 = ''Write'' \<longrightarrow>
               Write (BlkServiced.Devices (BlkServiced_create now content b) ! k) =
                 fst (ParseUint (Fields l ! 2))) \<and>
            (Fields l ! 1 = ''Sync'' \<longrightarrow>
               Sync (BlkServiced.Devices (BlkServiced_create now content b) ! k) =
                 fst (ParseUint (Fields l ! 2))) \<and>
            (Fields l ! 1 = ''Async'' \<longrightarrow>
               Async (BlkServiced.Devices (BlkServiced_create now content b) ! k) =
                 fst (ParseUint (Fields l ! 2)))"
    using opBlock_create [OF rows] by (simp add: dev)
  have 3: "\<forall>k<length blocks.
            BlkServiced.Devices (BlkServiced_create now content b) ! k =
              BlkDevice_create BlkDevice0 (filter recognized (snd (blocks ! k)))"
    using opBlock_recognized [OF rows] by (simp add: dev)
  from 1 2 3 show ?thesis by blast
qed

theorem C1_blocks_of_four_rows_witness:
  "Split twoDevicesContent CHR 0x0A = concat (map snd twoDevices) @ [''Total 36'', []] \<and>
   list_all (\<lambda>(d, ls). opBlock d ls) twoDevices \<and>
   distinct_adj (map fst twoDevices) \<and>
   list_all (\<lambda>l. length (Fields l) \<noteq> 3) [''Total 36'', []] \<and>
   \<not> recognized ''8:0 Total 10'' \<and>
   length (BlkServiced.Devices (BlkServiced_create 9 twoDevicesContent BlkServiced0)) = 2 \<and>
   Read (BlkServiced.Devices (BlkServiced_create 9 twoDevicesContent BlkServiced0) ! 0) = 1 \<and>
   Async (BlkServiced.Devices (BlkServiced_create 9 twoDevicesContent BlkServiced0) ! 1) = 8 \<and>
   BlkServiced.Devices (BlkServiced_create 9 twoDevicesContent BlkServiced0) ! 0 =
     BlkDevice_create BlkDevice0 [''8:0 Read 1'', ''8:0 Write 2'', ''8:0 Sync 3'', ''8:0 Async 4''] \<and>
   BlkServiced.Devices (BlkServiced_create 9 twoDevicesContent BlkServiced0) ! 0 =
     \<lparr>Major = 8, Minor = 0, Read = 1, Write = 2, Sync = 3, Async = 4\<rparr>"
proof -
  have h1: "Split twoDevicesContent CHR 0x0A = concat (map snd twoDevices) @ [''Total 36'', []]"
    by code_simp
  have h2: "\<forall>(d, ls)\<in>set twoDevices. opBlock d ls"
    by code_simp
  have h3: "distinct_adj (map fst twoDevices)"
    by (simp add: twoDevices_def)
  have h4: "\<forall>l\<in>set [''Total 36'', []]. length (Fields l) \<noteq> 3"
    by code_simp
  have h5: "\<not> recognized ''8:0 Total 10''"
    by code_simp
  have v: "fst (ParseUint (Fields ''8:0 Read 1'' ! 2)) = 1"
    "fst (ParseUint (Fields ''8:16 Async 8'' ! 2)) = 8"
    "Fields ''8:0 Read 1'' ! 1 = ''Read''" "Fields ''8:16 Async 8'' ! 1 = ''Async''"
    by code_simp+
  have f: "filter recognized (snd (twoDevices ! 0)) =
      [''8:0 Read 1'', ''8:0 Write 2'', ''8:0 Sync 3'', ''8:0 Async 4'']"
    by code_simp
  have e: "BlkDevice_create BlkDevice0 [''8:0 Read 1'', ''8:0 Write 2'', ''8:0 Sync 3'', ''8:0 Async 4''] =
      \<lparr>Major = 8, Minor = 0, Read = 1, Write = 2, Sync = 3, Async = 4\<rparr>"
    by code_simp
  have m: "''8:0 Read 1'' \<in> set (snd (twoDevices ! 0))" "''8:16 Async 8'' \<in> set (snd (twoDevices ! 1))"
    "(0::nat) < length twoDevices" "(1::nat) < length twoDevices"
    by (simp_all add: twoDevices_def)
  note c = C1_blocks_of_four_rows [OF h1 h2 h3 h4, of 9 BlkServiced0]
  have len: "length (BlkServiced.Devices (BlkServiced_create 9 twoDevicesContent BlkServiced0)) = 2"
    using c by (simp add: twoDevices_def)
  have r: "Read (BlkServiced.Devices (BlkServiced_create 9 twoDevicesContent BlkServiced0) ! 0) = 1"
    using c m(1,3) v(1,3) by metis
  have a: "Async (BlkServiced.Devices (BlkServiced_create 9 twoDevicesContent BlkServiced0) ! 1) = 8"
    using c m(2,4) v(2,4) by metis
  have d: "BlkServiced.Devices (BlkServiced_create 9 twoDevicesContent BlkServiced0) ! 0 =
     BlkDevice_create BlkDevice0 [''8:0 Read 1'', ''8:0 Write 2'', ''8:0 Sync 3'', ''8:0 Async 4'']"
    using c m(3) f by metis
  have h2': "list_all (\<lambda>(d, ls). opBlock d ls) twoDevices"
    using h2 by (simp add: list_all_iff)
  have h4': "list_all (\<lambda>l. length (Fields l) \<noteq> 3) [''Total 36'', []]"
    using h4 by (simp add: list_all_iff)
  from h1 h2' h3 h4' h5 len r a d e show ?thesis by simp
qed

subsection \<open>Groups and the guard of the loop\<close>

text \<open>
  C5. The claim is that a group is closed into a record only when it is not empty. The
  loop of \<^verbatim>\<open>BlkServiced.create\<close> (part_001) guards the flush by the line index
  (\<^verbatim>\<open>i > 0\<close>), not by the group: when the first row is not the first line, the empty group
  is flushed into a record of zeros. Here the content starts with an empty line.
\<close>

theorem C5_empty_group_flushed:
  "BlkServiced.Devices (BlkServiced_create 0 ''\<newline>8:0 Read 1\<newline>'' BlkServiced0) =
     [BlkDevice0, \<lparr>Major = 8, Minor = 0, Read = 1, Write = 0, Sync = 0, Async = 0\<rparr>]"
  by code_simp

text \<open>
  The earlier version (part_005) never assigns \<open>lastDeviceStr\<close>, so it never builds a
  group: whatever the content, it yields no record at all.
\<close>

lemma FieldsFrom_nonempty: "[] \<notin> set (FieldsFrom cur s)"
  by (induction cur s rule: FieldsFrom.induct) (auto simp del: spaceWidth.simps)

lemma Fields_nonempty: "[] \<notin> set (Fields s)"
  by (simp add: Fields_def FieldsFrom_nonempty)

lemma scan_part005_nothing: "BlkServiced_scan_part005 [] [] [] lines = ([], [])"
proof (induction lines)
  case Nil
  then show ?case by simp
next
  case (Cons l ls)
  have "Fields l ! 0 \<noteq> []" if "length (Fields l) = 3"
  proof -
    have "Fields l ! 0 \<in> set (Fields l)" using that by (intro nth_mem) simp
    then show ?thesis using Fields_nonempty [of l] by auto
  qed
  then show ?case using Cons by (simp add: Let_def)
qed

lemma part005_no_devices:
  "BlkServiced_part005.Devices (BlkServiced_create_part005 now content b) = []"
  by (simp add: BlkServiced_create_part005_def scan_part005_nothing)

subsection \<open>Device identifiers without a colon\<close>

lemma Split_no_sep: "sep \<notin> set s \<Longrightarrow> Split s sep = [s]"
  by (induction s) auto

lemma BlkDevice_create_append:
  "BlkDevice_create b (pre @ post) = BlkDevice_create (BlkDevice_create b pre) post"
  by (induction pre arbitrary: b) simp_all

lemma no_colon_line:
  assumes "length (Fields line) = 3" and "CHR '':'' \<notin> set (Fields line ! 0)"
  shows "BlkDevice_line b line = setCounter (Fields line ! 1) (Fields line ! 2) b"
  using assms by (simp add: BlkDevice_line_def Let_def Split_no_sep setCounter_def)

lemma setCounter_device:
  "Major (setCounter op unit b) = Major b \<and> Minor (setCounter op unit b) = Minor b"
  by (simp add: setCounter_def)

lemma no_colon_line_part005:
  assumes "length (Fields line) = 3" and "CHR '':'' \<notin> set (Fields line ! 0)"
  shows "BlkDevice_line_part005 b line =
         setCounter_part005 (Fields line ! 1) (Fields line ! 2)
           (b\<lparr>BlkDevice_part005.Major := fst (Atoi (Fields line ! 0))\<rparr>)"
  using assms
  by (simp add: BlkDevice_line_part005_def Let_def Split_no_sep setCounter_part005_def)

text \<open>
  C8 (amended). A row whose device identifier has no colon does to the record of
  \<^verbatim>\<open>BlkDevice.create\<close> (part_001) what its operation label and value say and nothing else:
  Major and Minor stay as they were (0 in a fresh record), and the lines after it are
  parsed as usual. In the earlier version (part_005) such a row leaves Minor as it was but
  sets Major to what \<^verbatim>\<open>Atoi\<close> gives for the whole identifier.
\<close>

theorem C8_no_colon:
  assumes "length (Fields line) = 3" and "CHR '':'' \<notin> set (Fields line ! 0)"
  shows "BlkDevice_line b line = setCounter (Fields line ! 1) (Fields line ! 2) b \<and>
         Major (BlkDevice_line b line) = Major b \<and> Minor (BlkDevice_line b line) = Minor b \<and>
         BlkDevice_create b (pre @ line # post) =
           BlkDevice_create (setCounter (Fields line ! 1) (Fields line ! 2) (BlkDevice_create b pre)) post \<and>
         BlkDevice_line_part005 b5 line =
           setCounter_part005 (Fields line ! 1) (Fields line ! 2)
             (b5\<lparr>BlkDevice_part005.Major := fst (Atoi (Fields line ! 0))\<rparr>) \<and>
         BlkDevice_part005.Major (BlkDevice_line_part005 b5 line) = fst (Atoi (Fields line ! 0)) \<and>
         BlkDevice_part005.Minor (BlkDevice_line_part005 b5 line) = BlkDevice_part005.Minor b5"
  using no_colon_line [OF assms] no_colon_line_part005 [OF assms]
  by (simp add: setCounter_device BlkDevice_create_append setCounter_part005_def)

theorem C8_no_colon_witness:
  "length (Fields ''8 Read 5'') = 3 \<and> CHR '':'' \<notin> set (Fields ''8 Read 5'' ! 0) \<and>
   BlkDevice_line BlkDevice0 ''8 Read 5'' = BlkDevice0\<lparr>Read := 5\<rparr> \<and>
   BlkDevice_create BlkDevice0 [''8 Read 5'', ''8 Write 6''] = BlkDevice0\<lparr>Read := 5, Write := 6\<rparr> \<and>
   BlkDevice_line_part005 BlkDevice0_part005 ''8 Read 5'' =
     BlkDevice0_part005\<lparr>BlkDevice_part005.Major := 8, BlkDevice_part005.Read := 5\<rparr>"
proof -
  have h: "length (Fields ''8 Read 5'') = 3" "CHR '':'' \<notin> set (Fields ''8 Read 5'' ! 0)"
    by code_simp+
  have f: "Fields ''8 Read 5'' = [''8'', ''Read'', ''5'']" by code_simp
  have v: "fst (ParseUint ''5'') = 5" "fst (Atoi ''8'') = 8" by code_simp+
  note c = C8_no_colon [OF h, of BlkDevice0 "[]" "[''8 Write 6'']" BlkDevice0_part005]
  have 1: "BlkDevice_line BlkDevice0 ''8 Read 5'' = BlkDevice0\<lparr>Read := 5\<rparr>"
    using c by (simp add: f v setCounter_def)
  have 2: "BlkDevice_create BlkDevice0 [''8 Read 5'', ''8 Write 6''] =
           BlkDevice0\<lparr>Read := 5, Write := 6\<rparr>"
    using c by code_simp
  have 3: "BlkDevice_line_part005 BlkDevice0_part005 ''8 Read 5'' =
     BlkDevice0_part005\<lparr>BlkDevice_part005.Major := 8, BlkDevice_part005.Read := 5\<rparr>"
    using c by (simp add: f v setCounter_part005_def)
  from h 1 2 3 show ?thesis by blast
qed

theorem C8_part005_counterexample:
  "length (Fields ''8 Read 5'') = 3 \<and> CHR '':'' \<notin> set (Fields ''8 Read 5'' ! 0) \<and>
   BlkDevice_part005.Major BlkDevice0_part005 = 0 \<and>
   BlkDevice_part005.Major (BlkDevice_line_part005 BlkDevice0_part005 ''8 Read 5'') = 8"
  by code_simp

section \<open>Properties of the discovery walk\<close>

lemma file_names_distinct:
  "memFile \<noteq> cPUFile" "memFile \<noteq> blkIOIOPSFile" "memFile \<noteq> blkIOBytesFile"
  "cPUFile \<noteq> blkIOIOPSFile" "cPUFile \<noteq> blkIOBytesFile" "blkIOIOPSFile \<noteq> blkIOBytesFile"
  by (simp_all add: memFile_def cPUFile_def blkIOIOPSFile_def blkIOBytesFile_def)

text \<open>
  C9. When \<^verbatim>\<open>walkFn\<close> (part_002; part_003 has the same lines) visits, without error, a
  file that is no directory and whose path gives the identifier of a container in the map,
  a base name equal to the operation-count file \<^verbatim>\<open>blkio.throttle.io_serviced\<close> sets the
  path of \<open>BlkIO.Bytes\<close>, and a base name equal to the byte-count file
  \<^verbatim>\<open>blkio.throttle.io_service_bytes\<close> sets the path of \<open>BlkIO.IOPS\<close>: the two bindings
  are swapped with respect to the names of the fields. Nothing else of the entry changes.
\<close>

theorem C9_blkio_bindings:
  assumes "err c = None" and "\<not> IsDir (info c)" and "2 \<le> length (re (filePath c))"
    and "stats (re (filePath c) ! 1) = Some cs"
  shows "blkIOIOPSFile = ''blkio.throttle.io_serviced'' \<and>
         blkIOBytesFile = ''blkio.throttle.io_service_bytes'' \<and>
         (Base (Name (info c)) = blkIOIOPSFile \<longrightarrow>
            walkFn_part002 re c stats =
              (stats(re (filePath c) ! 1 \<mapsto>
                 cs\<lparr>BlkIO := (BlkIO cs)\<lparr>Bytes := (Bytes (BlkIO cs))\<lparr>BlkServiced.path := filePath c\<rparr>\<rparr>\<rparr>), None)) \<and>
         (Base (Name (info c)) = blkIOBytesFile \<longrightarrow>
            walkFn_part002 re c stats =
              (stats(re (filePath c) ! 1 \<mapsto>
                 cs\<lparr>BlkIO := (BlkIO cs)\<lparr>IOPS := (IOPS (BlkIO cs))\<lparr>BlkServiced.path := filePath c\<rparr>\<rparr>\<rparr>), None))"
  using assms file_names_distinct
  by (auto simp: walkFn_part002_def Let_def blkIOIOPSFile_def blkIOBytesFile_def)

lemma walkFn_entry:
  "fst (walkFn re c cg) cid \<noteq> None \<Longrightarrow> cg cid \<noteq> None \<or> dirMatch re c cid"
  by (auto simp: walkFn_def dirMatch_def Let_def split: option.splits if_splits)

lemma walkFn_part002_entry:
  "fst (walkFn_part002 re c stats) cid \<noteq> None \<Longrightarrow> stats cid \<noteq> None \<or> dirMatch re c cid"
  by (auto simp: walkFn_part002_def dirMatch_def Let_def split: option.splits if_splits)

lemma Walk_entry:
  assumes step: "\<And>c st cid. fst (f c st) cid \<noteq> None \<Longrightarrow> st cid \<noteq> None \<or> dirMatch re c cid"
  shows "fst (Walk f calls st) cid \<noteq> None \<Longrightarrow> st cid \<noteq> None \<or> (\<exists>c\<in>set calls. dirMatch re c cid)"
proof (induction calls arbitrary: st)
  case Nil
  then show ?case by simp
next
  case (Cons c calls)
  obtain st' r where f: "f c st = (st', r)" by (cases "f c st")
  show ?case
  proof (cases r)
    case None
    with Cons.prems f have "fst (Walk f calls st') cid \<noteq> None" by simp
    from Cons.IH [OF this] have "st' cid \<noteq> None \<or> (\<exists>c\<in>set calls. dirMatch re c cid)" .
    moreover have "st' cid \<noteq> None \<Longrightarrow> st cid \<noteq> None \<or> dirMatch re c cid"
      using step [of c st cid] f by simp
    ultimately show ?thesis by auto
  next
    case (Some e)
    with Cons.prems f have "st' cid \<noteq> None" by simp
    then have "st cid \<noteq> None \<or> dirMatch re c cid" using step [of c st cid] f by simp
    then show ?thesis by auto
  qed
qed

lemma walkFn_file_dom: "\<not> IsDir (info c) \<Longrightarrow> dom (fst (walkFn re c cg)) = dom cg"
  by (auto simp: walkFn_def Let_def split: option.splits if_splits)

lemma walkFn_part002_file_dom: "\<not> IsDir (info c) \<Longrightarrow> dom (fst (walkFn_part002 re c stats)) = dom stats"
  by (auto simp: walkFn_part002_def Let_def split: option.splits if_splits)

lemma walkFn_file_no_entry:
  "\<not> IsDir (info c) \<Longrightarrow> cg (re (filePath c) ! 1) = None \<Longrightarrow> walkFn re c cg = (cg, err c)"
  by (auto simp: walkFn_def Let_def split: option.splits)

lemma walkFn_part002_file_no_entry:
  "\<not> IsDir (info c) \<Longrightarrow> stats (re (filePath c) ! 1) = None \<Longrightarrow> walkFn_part002 re c stats = (stats, None)"
  by (auto simp: walkFn_part002_def Let_def split: option.splits)

text \<open>
  C6. In both versions of \<^verbatim>\<open>walkFn\<close>: after any sequence of calls that starts from the
  empty map, every key of the map was captured from a directory that one of the calls
  visited without error; a call for a file never changes the set of keys; and a call for a
  file whose captured identifier has no entry changes nothing at all, so a path is bound
  only to an entry that exists already.
\<close>

theorem C6_entries_from_directories:
  "(fst (Walk (walkFn re) calls Map.empty) cid \<noteq> None \<longrightarrow> (\<exists>c\<in>set calls. dirMatch re c cid)) \<and>
   (\<not> IsDir (info c) \<longrightarrow> dom (fst (walkFn re c cg)) = dom cg) \<and>
   (\<not> IsDir (info c) \<and> cg (re (filePath c) ! 1) = None \<longrightarrow> fst (walkFn re c cg) = cg) \<and>
   (fst (Walk (walkFn_part002 re) calls Map.empty) cid \<noteq> None \<longrightarrow> (\<exists>c\<in>set calls. dirMatch re c cid)) \<and>
   (\<not> IsDir (info c) \<longrightarrow> dom (fst (walkFn_part002 re c stats)) = dom stats) \<and>
   (\<not> IsDir (info c) \<and> stats (re (filePath c) ! 1) = None \<longrightarrow> fst (walkFn_part002 re c stats) = stats)"
proof -
  have 1: "fst (Walk (walkFn re) calls Map.empty) cid \<noteq> None \<longrightarrow> (\<exists>c\<in>set calls. dirMatch re c cid)"
    using Walk_entry [of "walkFn re" re calls Map.empty cid] walkFn_entry by fastforce
  have 2: "fst (Walk (walkFn_part002 re) calls Map.empty) cid \<noteq> None \<longrightarrow> (\<exists>c\<in>set calls. dirMatch re c cid)"
    using Walk_entry [of "walkFn_part002 re" re calls Map.empty cid] walkFn_part002_entry by fastforce
  show ?thesis
    using 1 2 by (simp add: walkFn_file_dom walkFn_part002_file_dom walkFn_file_no_entry walkFn_part002_file_no_entry)
qed

lemma walkFn_part002_no_error: "snd (walkFn_part002 re c stats) = None"
  by (auto simp: walkFn_part002_def Let_def split: option.splits)

lemma Walk_append:
  "Walk f (pre @ post) st =
     (case Walk f pre st of (st', None) \<Rightarrow> Walk f post st' | (st', Some e) \<Rightarrow> (st', Some e))"
  by (induction pre arbitrary: st) (auto split: prod.splits option.splits)

lemma Walk_no_error:
  assumes "\<And>c st. snd (f c st) = None"
  shows "snd (Walk f calls st) = None"
proof (induction calls arbitrary: st)
  case Nil
  then show ?case by simp
next
  case (Cons c calls)
  obtain st' where "f c st = (st', None)" using assms [of c st] by (cases "f c st") auto
  then show ?case using Cons.IH by simp
qed


text \<open>
  C7 (amended). The later \<^verbatim>\<open>walkFn\<close> (part_002) absorbs the error of an entry: it returns
  nil and leaves the map alone, the walk goes on over the remaining entries as if the entry
  were not there, and neither the walk nor \<^verbatim>\<open>updatePaths\<close> ever fails. The first
  \<^verbatim>\<open>walkFn\<close> (gocstat.go) returns the error it is given: the walk stops at that entry and
  \<^verbatim>\<open>updatePaths\<close> fails with it.
\<close>

theorem C7_entry_errors:
  "(err c = Some e \<longrightarrow> walkFn_part002 re c stats = (stats, None)) \<and>
   (err c = Some e \<longrightarrow>
      Walk (walkFn_part002 re) (pre @ c # post) stats = Walk (walkFn_part002 re) (pre @ post) stats) \<and>
   snd (Walk (walkFn_part002 re) calls stats) = None \<and>
   snd (updatePaths_part002 re calls stats) = None \<and>
   (err c = Some e \<longrightarrow> walkFn re c cg = (cg, Some e)) \<and>
   (err c = Some e \<and> snd (Walk (walkFn re) pre cg) = None \<longrightarrow>
      updatePaths re (pre @ c # post) (Some cg) =
        (Some (fst (Walk (walkFn re) pre cg)), Some (ErrWalking e)))"
proof -
  have a: "err c = Some e \<Longrightarrow> walkFn_part002 re c stats = (stats, None)" for stats
    by (simp add: walkFn_part002_def)
  have b: "err c = Some e \<Longrightarrow>
      Walk (walkFn_part002 re) (pre @ c # post) stats = Walk (walkFn_part002 re) (pre @ post) stats"
    by (simp add: Walk_append a split: prod.splits option.splits)
  have c: "snd (Walk (walkFn_part002 re) calls stats) = None"
    by (rule Walk_no_error) (rule walkFn_part002_no_error)
  have d: "snd (updatePaths_part002 re calls stats) = None"
    using c by (cases "Walk (walkFn_part002 re) calls stats") (simp add: updatePaths_part002_def)
  have e: "err c = Some e \<Longrightarrow> walkFn re c cg = (cg, Some e)" for cg
    by (simp add: walkFn_def)
  have f: "err c = Some e \<Longrightarrow> snd (Walk (walkFn re) pre cg) = None \<Longrightarrow>
      updatePaths re (pre @ c # post) (Some cg) =
        (Some (fst (Walk (walkFn re) pre cg)), Some (ErrWalking e))"
    by (cases "Walk (walkFn re) pre cg") (simp add: updatePaths_def Walk_append e)
  from a b c d e f show ?thesis by blast
qed

lemma example_names:
  "Base ''memory.stat'' = ''memory.stat''"
  "Base ''docker-abc.scope'' = ''docker-abc.scope''"
  "Base ''blkio.throttle.io_serviced'' = ''blkio.throttle.io_serviced''"
  "Base ''blkio.throttle.io_service_bytes'' = ''blkio.throttle.io_service_bytes''"
  by code_simp+

lemma example_walk:
  "Walk (walkFn exampleRe) [dirCall, memCall] Map.empty =
     ([''abc'' \<mapsto> ContainerStat0\<lparr>ContainerStat.Memory := (ContainerStat.Memory ContainerStat0)\<lparr>CMemStat.path := filePath memCall\<rparr>\<rparr>], None)"
  "Walk (walkFn_part002 exampleRe) [dirCall, memCall] Map.empty =
     ([''abc'' \<mapsto> ContainerStats0\<lparr>Memory := (Memory ContainerStats0)\<lparr>MemStat.path := filePath memCall\<rparr>\<rparr>], None)"
  by (simp_all add: walkFn_def walkFn_part002_def exampleRe_def dirCall_def memCall_def example_names
      MemFile_def CPUFile_def memFile_def Let_def)

theorem C6_entries_from_directories_witness:
  "fst (Walk (walkFn exampleRe) [dirCall, memCall] Map.empty) ''abc'' \<noteq> None \<and>
   fst (Walk (walkFn_part002 exampleRe) [dirCall, memCall] Map.empty) ''abc'' \<noteq> None \<and>
   list_ex (\<lambda>c. dirMatch exampleRe c ''abc'') [dirCall, memCall] \<and>
   \<not> IsDir (info memCall) \<and> Map.empty (exampleRe (filePath memCall) ! 1) = (None :: ContainerStat option) \<and>
   dom (fst (walkFn exampleRe memCall Map.empty)) = {} \<and>
   fst (walkFn exampleRe memCall Map.empty) = Map.empty \<and>
   dom (fst (walkFn_part002 exampleRe memCall Map.empty)) = {} \<and>
   fst (walkFn_part002 exampleRe memCall Map.empty) = Map.empty"
proof -
  note c = C6_entries_from_directories
    [of exampleRe "[dirCall, memCall]" "''abc''" memCall Map.empty Map.empty]
  have h1: "fst (Walk (walkFn exampleRe) [dirCall, memCall] Map.empty) ''abc'' \<noteq> None"
    "fst (Walk (walkFn_part002 exampleRe) [dirCall, memCall] Map.empty) ''abc'' \<noteq> None"
    by (simp_all only: example_walk fst_conv) simp_all
  have h2: "\<not> IsDir (info memCall)" by (simp add: memCall_def)
  from c h1 have "list_ex (\<lambda>c. dirMatch exampleRe c ''abc'') [dirCall, memCall]"
    unfolding list_ex_iff by blast
  with c h1 h2 show ?thesis by simp
qed

text \<open>
  The claim fails for the first version: an entry that has vanished ends the walk, the pass
  fails, and the container directory after it is not discovered (alone, it would be).
\<close>

theorem C7_gocstat_counterexample:
  "err goneCall = Some ErrNotExist \<and>
   walkFn exampleRe goneCall Map.empty = (Map.empty, Some ErrNotExist) \<and>
   updatePaths exampleRe [goneCall, dirCall] (Some Map.empty) =
     (Some Map.empty, Some (ErrWalking ErrNotExist)) \<and>
   fst (Walk (walkFn exampleRe) [dirCall] Map.empty) ''abc'' \<noteq> None"
  by (simp add: walkFn_def updatePaths_def exampleRe_def goneCall_def dirCall_def Let_def)

theorem C7_entry_errors_witness:
  "err goneCall = Some ErrNotExist \<and>
   walkFn_part002 exampleRe goneCall Map.empty = (Map.empty, None) \<and>
   Walk (walkFn_part002 exampleRe) [goneCall, dirCall] Map.empty =
     ([''abc'' \<mapsto> ContainerStats0], None) \<and>
   snd (updatePaths_part002 exampleRe [goneCall, dirCall] Map.empty) = None \<and>
   snd (Walk (walkFn exampleRe) [] Map.empty) = None \<and>
   walkFn exampleRe goneCall Map.empty = (Map.empty, Some ErrNotExist) \<and>
   updatePaths exampleRe [goneCall, dirCall] (Some Map.empty) =
     (Some Map.empty, Some (ErrWalking ErrNotExist))"
proof -
  have h: "err goneCall = Some ErrNotExist" by (simp add: goneCall_def)
  have h': "snd (Walk (walkFn exampleRe) [] (Map.empty :: cgroups)) = None" by simp
  have w: "Walk (walkFn_part002 exampleRe) ([] @ [dirCall]) Map.empty = ([''abc'' \<mapsto> ContainerStats0], None)"
    by (simp add: walkFn_part002_def exampleRe_def dirCall_def Let_def)
  note c = C7_entry_errors [of goneCall ErrNotExist exampleRe Map.empty "[]" "[dirCall]"
      "[goneCall, dirCall]" Map.empty]
  from c h h' w show ?thesis by simp
qed

theorem C9_blkio_bindings_witness:
  "err iopsCall = None \<and> \<not> IsDir (info iopsCall) \<and> 2 \<le> length (exampleRe (filePath iopsCall)) \<and>
   [''abc'' \<mapsto> ContainerStats0] (exampleRe (filePath iopsCall) ! 1) = Some ContainerStats0 \<and>
   Base (Name (info iopsCall)) = ''blkio.throttle.io_serviced'' \<and>
   BlkServiced.path (Bytes (BlkIO (the (fst (walkFn_part002 exampleRe iopsCall [''abc'' \<mapsto> ContainerStats0]) ''abc'')))) =
     ''/cg/docker-abc.scope/blkio.throttle.io_serviced'' \<and>
   BlkServiced.path (IOPS (BlkIO (the (fst (walkFn_part002 exampleRe iopsCall [''abc'' \<mapsto> ContainerStats0]) ''abc'')))) = []"
proof -
  have h: "err iopsCall = None" "\<not> IsDir (info iopsCall)" "2 \<le> length (exampleRe (filePath iopsCall))"
    "[''abc'' \<mapsto> ContainerStats0] (exampleRe (filePath iopsCall) ! 1) = Some ContainerStats0"
    by (simp_all add: iopsCall_def exampleRe_def)
  have n: "Base (Name (info iopsCall)) = ''blkio.throttle.io_serviced''"
    by (simp add: iopsCall_def example_names)
  have i: "exampleRe (filePath iopsCall) ! Suc 0 = ''abc''" by (simp add: iopsCall_def exampleRe_def)
  note c = C9_blkio_bindings [where c = iopsCall and re = exampleRe
      and stats = "[''abc'' \<mapsto> ContainerStats0]" and cs = ContainerStats0, OF h]
  from c n have "walkFn_part002 exampleRe iopsCall [''abc'' \<mapsto> ContainerStats0] =
     ([''abc'' \<mapsto> ContainerStats0\<lparr>BlkIO := (BlkIO ContainerStats0)\<lparr>Bytes :=
        (Bytes (BlkIO ContainerStats0))\<lparr>BlkServiced.path := filePath iopsCall\<rparr>\<rparr>\<rparr>], None)"
    by (simp add: i)
  then have "BlkServiced.path (Bytes (BlkIO (the (fst (walkFn_part002 exampleRe iopsCall [''abc'' \<mapsto> ContainerStats0]) ''abc'')))) =
     ''/cg/docker-abc.scope/blkio.throttle.io_serviced''"
    "BlkServiced.path (IOPS (BlkIO (the (fst (walkFn_part002 exampleRe iopsCall [''abc'' \<mapsto> ContainerStats0]) ''abc'')))) = []"
    by (simp_all add: iopsCall_def ContainerStats0_def BlkServiced0_def)
  with h n show ?thesis by blast
qed

section \<open>Properties of the CPU and memory parsers\<close>

lemma decimalFrom_ge: "n \<le> decimalFrom n cs"
proof (induction cs arbitrary: n)
  case Nil
  then show ?case by simp
next
  case (Cons c cs)
  have "n \<le> 10 * n + digitVal c" by simp
  also have "\<dots> \<le> decimalFrom (10 * n + digitVal c) cs" by (rule Cons.IH)
  finally show ?case by simp
qed

lemma digitVal_less: "isDigit c \<Longrightarrow> digitVal c < 10"
  by (auto simp: isDigit_def digitVal_def)

lemma cutoff_val: "unat cutoff = 1844674407370955162"
  by (simp add: cutoff_def maxUint64_def)

lemma ParseUintLoop_step:
  fixes n :: uint64
  assumes d: "d < 10" and bound: "10 * unat n + d < 2 ^ 64"
  shows "\<not> cutoff \<le> n" and "unat (n * 10 + of_nat d) = 10 * unat n + d" and "\<not> n * 10 + of_nat d < n * 10"
proof -
  show "\<not> cutoff \<le> n" using bound by (simp add: word_le_nat_alt cutoff_val)
  have m: "unat (n * 10) = unat n * 10"
    using bound by (subst unat_mult_lem [THEN iffD1]) simp_all
  have od: "unat (of_nat d :: uint64) = d" using d by (simp add: unat_of_nat)
  have a: "unat (n * 10 + of_nat d) = unat (n * 10) + unat (of_nat d :: uint64)"
    using bound m od by (subst unat_add_lem [THEN iffD1]) simp_all
  show "unat (n * 10 + of_nat d) = 10 * unat n + d" using a m od by simp
  then show "\<not> n * 10 + of_nat d < n * 10" using m by (simp add: word_less_nat_alt)
qed

lemma ParseUintLoop_digits:
  "list_all isDigit cs \<Longrightarrow> decimalFrom (unat n) cs < 2 ^ 64 \<Longrightarrow>
   ParseUintLoop n cs = (of_nat (decimalFrom (unat n) cs), None)"
proof (induction cs arbitrary: n)
  case Nil
  then show ?case by simp
next
  case (Cons c cs)
  from Cons.prems have dig: "isDigit c" and rest: "list_all isDigit cs" by simp_all
  let ?d = "digitVal c"
  have "10 * unat n + ?d \<le> decimalFrom (10 * unat n + ?d) cs" by (rule decimalFrom_ge)
  with Cons.prems(2) have bound: "10 * unat n + ?d < 2 ^ 64" by simp
  note st = ParseUintLoop_step [OF digitVal_less [OF dig] bound]
  have "ParseUintLoop n (c # cs) = ParseUintLoop (n * 10 + of_nat ?d) cs"
    using dig st(1,3) by (simp add: Let_def)
  also have "\<dots> = (of_nat (decimalFrom (unat (n * 10 + of_nat ?d)) cs), None)"
    using Cons.prems(2) by (intro Cons.IH [OF rest]) (simp add: st(2))
  finally show ?case by (simp add: st(2))
qed

lemma ParseUint_numeric: "numeric s \<Longrightarrow> ParseUint s = (of_nat (decimal s), None)"
  using ParseUintLoop_digits [of s 0] by (simp add: numeric_def ParseUint_def decimal_def)


lemma CPUStat_loop_rest: "2 \<le> i \<Longrightarrow> CPUStat_loop i lines c = c"
  by (induction lines arbitrary: i) (simp_all add: Let_def)

lemma MemStat_loop_rest: "2 \<le> i \<Longrightarrow> MemStat_loop i lines m = m"
  by (induction lines arbitrary: i) (simp_all add: Let_def)

lemma createCPUStat_loop_rest: "2 \<le> i \<Longrightarrow> createCPUStat_loop i lines cs = cs"
  by (induction lines arbitrary: i) (simp_all add: Let_def)

lemma createMemStat_loop_rest: "2 \<le> i \<Longrightarrow> createMemStat_loop i lines cs = cs"
  by (induction lines arbitrary: i) (simp_all add: Let_def)

lemma numeric_value: "numeric s \<Longrightarrow> unat (fst (ParseUint s)) = decimal s"
  by (simp add: ParseUint_numeric unat_of_nat) (simp add: numeric_def)

text \<open>
  C3. When the content has at least two lines, each with at least two fields of which the
  second is a decimal number that fits 64 bits, the CPU parser sets User to the number in
  the second field of line 0 and System to the one of line 1, and the memory parser does
  so for Cache and RSS, in \<^verbatim>\<open>CPUStat.create\<close> and \<^verbatim>\<open>MemStat.create\<close> (part_002) as in
  \<^verbatim>\<open>createCPUStat\<close> and \<^verbatim>\<open>createMemStat\<close> (gocstat.go). Nothing is asked of the first
  fields: the labels play no part.
\<close>

theorem C3_positional_two_lines:
  assumes "Split content CHR 0x0A = l0 # l1 # rest"
    and "2 \<le> length (Fields l0)" and "numeric (Fields l0 ! 1)"
    and "2 \<le> length (Fields l1)" and "numeric (Fields l1 ! 1)"
  shows "unat (CPUStat.User (CPUStat_create now content c)) = decimal (Fields l0 ! 1) \<and>
         unat (CPUStat.System (CPUStat_create now content c)) = decimal (Fields l1 ! 1) \<and>
         unat (MemStat.Cache (MemStat_create now content m)) = decimal (Fields l0 ! 1) \<and>
         unat (MemStat.RSS (MemStat_create now content m)) = decimal (Fields l1 ! 1) \<and>
         unat (CCPUStat.User (ContainerStat.CPU (createCPUStat cs content))) = decimal (Fields l0 ! 1) \<and>
         unat (CCPUStat.System (ContainerStat.CPU (createCPUStat cs content))) = decimal (Fields l1 ! 1) \<and>
         unat (CMemStat.Cache (ContainerStat.Memory (createMemStat cs content))) = decimal (Fields l0 ! 1) \<and>
         unat (CMemStat.RSS (ContainerStat.Memory (createMemStat cs content))) = decimal (Fields l1 ! 1)"
proof -
  have f: "\<not> length (Fields l0) < 2" "\<not> length (Fields l1) < 2" using assms(2,4) by simp_all
  have cpu: "CPUStat_create now content c =
      c\<lparr>CPUStat.User := fst (ParseUint (Fields l0 ! 1)),
        CPUStat.System := fst (ParseUint (Fields l1 ! 1)), CPUStat.Timestamp := now\<rparr>"
    by (simp add: CPUStat_create_def assms(1) f Let_def CPUStat_loop_rest)
  have mem: "MemStat_create now content m =
      m\<lparr>MemStat.Cache := fst (ParseUint (Fields l0 ! 1)),
        MemStat.RSS := fst (ParseUint (Fields l1 ! 1)), MemStat.Timestamp := now\<rparr>"
    by (simp add: MemStat_create_def assms(1) f Let_def MemStat_loop_rest)
  have ccpu: "createCPUStat cs content =
      cs\<lparr>ContainerStat.CPU := (ContainerStat.CPU cs)\<lparr>CCPUStat.User := fst (ParseUint (Fields l0 ! 1)),
        CCPUStat.System := fst (ParseUint (Fields l1 ! 1))\<rparr>\<rparr>"
    by (simp add: createCPUStat_def assms(1) f Let_def createCPUStat_loop_rest)
  have cmem: "createMemStat cs content =
      cs\<lparr>ContainerStat.Memory := (ContainerStat.Memory cs)\<lparr>CMemStat.Cache := fst (ParseUint (Fields l0 ! 1)),
        CMemStat.RSS := fst (ParseUint (Fields l1 ! 1))\<rparr>\<rparr>"
    by (simp add: createMemStat_def assms(1) f Let_def createMemStat_loop_rest)
  show ?thesis
    using numeric_value [OF assms(3)] numeric_value [OF assms(5)]
    by (simp add: cpu mem ccpu cmem)
qed

theorem C3_positional_two_lines_witness:
  "Split cpuContent CHR 0x0A = [''user 5'', ''system 7'', []] \<and>
   2 \<le> length (Fields ''user 5'') \<and> numeric (Fields ''user 5'' ! 1) \<and>
   2 \<le> length (Fields ''system 7'') \<and> numeric (Fields ''system 7'' ! 1) \<and>
   unat (CPUStat.User (CPUStat_create 1 cpuContent (CPU ContainerStats0))) = 5 \<and>
   unat (CPUStat.System (CPUStat_create 1 cpuContent (CPU ContainerStats0))) = 7 \<and>
   unat (MemStat.Cache (MemStat_create 1 cpuContent (Memory ContainerStats0))) = 5 \<and>
   unat (MemStat.RSS (MemStat_create 1 cpuContent (Memory ContainerStats0))) = 7"
proof -
  have h1: "Split cpuContent CHR 0x0A = ''user 5'' # ''system 7'' # [[]]" by code_simp
  have f: "Fields ''user 5'' = [''user'', ''5'']" "Fields ''system 7'' = [''system'', ''7'']"
    by code_simp+
  have n: "numeric ''5''" "numeric ''7''" "decimal ''5'' = 5" "decimal ''7'' = 7"
    by (simp_all add: numeric_def decimal_def isDigit_def digitVal_def)
  have h: "2 \<le> length (Fields ''user 5'')" "numeric (Fields ''user 5'' ! 1)"
    "2 \<le> length (Fields ''system 7'')" "numeric (Fields ''system 7'' ! 1)"
    by (simp_all add: f n)
  note c = C3_positional_two_lines [OF h1 h, of 1 "CPU ContainerStats0" "Memory ContainerStats0" ContainerStat0]
  have v: "unat (CPUStat.User (CPUStat_create 1 cpuContent (CPU ContainerStats0))) = 5"
    "unat (CPUStat.System (CPUStat_create 1 cpuContent (CPU ContainerStats0))) = 7"
    "unat (MemStat.Cache (MemStat_create 1 cpuContent (Memory ContainerStats0))) = 5"
    "unat (MemStat.RSS (MemStat_create 1 cpuContent (Memory ContainerStats0))) = 7"
    using c by (simp_all add: f n)
  from h1 h v show ?thesis by simp
qed

section \<open>Properties of the snapshot\<close>

lemma firstError_cases:
  "\<forall>p\<in>set ps. \<not> otherError fs p \<Longrightarrow>
   firstError fs ps = (if \<exists>p\<in>set ps. missing fs p then Some ErrNotExist else None)"
  by (induction ps) (auto simp: otherError_def missing_def IsNotExist_def split: sum.splits)

lemma createMemStat_loop_CPU: "ContainerStat.CPU (createMemStat_loop i lines cs) = ContainerStat.CPU cs"
  by (induction lines arbitrary: i cs) (simp_all add: Let_def)

lemma createMemStat_CPU: "ContainerStat.CPU (createMemStat cs b) = ContainerStat.CPU cs"
  by (simp add: createMemStat_def Let_def createMemStat_loop_CPU)

lemma ReadCgroups_body_cases:
  "ReadCgroups_body fs cs =
     (case firstError fs (boundPaths cs) of
        None \<Rightarrow> Proceed (case ReadCgroups_body fs cs of Proceed c \<Rightarrow> c | _ \<Rightarrow> cs)
      | Some e \<Rightarrow> if IsNotExist e then DeleteContinue
                  else Return (case ReadCgroups_body fs cs of Return c e' \<Rightarrow> c | _ \<Rightarrow> cs) e)"
  by (auto simp: ReadCgroups_body_def ReadCgroups_memory_def ReadCgroups_cpu_def boundPaths_def
      createMemStat_CPU split: sum.splits)

lemma ReadCgroups_loop_append:
  "ReadCgroups_loop fs (pre @ post) cg =
     (case ReadCgroups_loop fs pre cg of
        (cg1, None) \<Rightarrow> ReadCgroups_loop fs post cg1
      | (cg1, Some e) \<Rightarrow> (cg1, Some e))"
  by (induction pre arbitrary: cg) (auto split: option.splits entry_flow.splits)

lemma ReadCgroups_loop_other:
  "k \<notin> set ids \<Longrightarrow> fst (ReadCgroups_loop fs ids cg) k = cg k"
  by (induction ids arbitrary: cg) (auto split: option.splits entry_flow.splits)





lemma readChain_cases:
  assumes "stats cid = Some ent"
  shows "(firstError fs (filter (\<lambda>p. p \<noteq> []) (map fst steps)) = None \<longrightarrow>
            (\<exists>s'. readChain fs cid steps stats = Next s' \<and> s' cid \<noteq> None \<and> sameElsewhere cid stats s')) \<and>
         (\<forall>e. firstError fs (filter (\<lambda>p. p \<noteq> []) (map fst steps)) = Some e \<longrightarrow>
            (IsNotExist e \<longrightarrow>
               (\<exists>s'. readChain fs cid steps stats = NilDereference s' \<and> s' cid = None \<and>
                     sameElsewhere cid stats s')) \<and>
            (\<not> IsNotExist e \<longrightarrow>
               (\<exists>s'. readChain fs cid steps stats = ReturnError s' e \<and> s' cid \<noteq> None \<and>
                     sameElsewhere cid stats s')))"
  using assms
proof (induction steps arbitrary: stats ent)
  case Nil
  then show ?case by (simp add: sameElsewhere_def)
next
  case (Cons st steps)
  obtain p upd where st: "st = (p, upd)" by (cases st)
  show ?case
  proof (cases "p = []")
    case True
    then have eq: "readChain fs cid (st # steps) stats = readChain fs cid steps stats"
      by (simp add: st readStep_def)
    show ?thesis using Cons.IH [of stats ent, OF Cons.prems] True by (simp add: eq) (simp add: st)
  next
    case False
    show ?thesis
    proof (cases "fs p")
      case (Inl e)
      have fe: "firstError fs (filter (\<lambda>p. p \<noteq> []) (map fst (st # steps))) = Some e"
        using False Inl by (simp add: st)
      have r: "IsNotExist e \<Longrightarrow> readChain fs cid (st # steps) stats = NilDereference (stats(cid := None))"
        "\<not> IsNotExist e \<Longrightarrow> readChain fs cid (st # steps) stats = ReturnError stats e"
        using False Inl by (simp_all add: st readStep_def readFile_def)
      show ?thesis unfolding fe using r Cons.prems by (auto simp: sameElsewhere_def)
    next
      case (Inr b)
      let ?s1 = "stats(cid \<mapsto> upd b ent)"
      have eq: "readChain fs cid (st # steps) stats = readChain fs cid steps ?s1"
        using False Inr Cons.prems by (simp add: st readStep_def readFile_def)
      have fe: "firstError fs (filter (\<lambda>p. p \<noteq> []) (map fst (st # steps))) =
                firstError fs (filter (\<lambda>p. p \<noteq> []) (map fst steps))"
        using False Inr by (simp add: st)
      have s1: "?s1 cid = Some (upd b ent)" by simp
      have se: "sameElsewhere cid ?s1 s' \<Longrightarrow> sameElsewhere cid stats s'" for s'
        by (simp add: sameElsewhere_def)
      show ?thesis
        unfolding fe eq using Cons.IH [of ?s1 "upd b ent", OF s1] se by blast
    qed
  qed
qed

lemma ReadStats_body_chain:
  "ReadStats_body fs now cid cs stats =
     readChain fs cid
       [(MemStat.path (Memory cs), \<lambda>b c. c\<lparr>Memory := MemStat_create now b (Memory c)\<rparr>),
        (CPUStat.path (CPU cs), \<lambda>b c. c\<lparr>CPU := CPUStat_create now b (CPU c)\<rparr>),
        (BlkServiced.path (Bytes (BlkIO cs)),
           \<lambda>b c. c\<lparr>BlkIO := (BlkIO c)\<lparr>Bytes := BlkServiced_create now b (Bytes (BlkIO c))\<rparr>\<rparr>),
        (BlkServiced.path (IOPS (BlkIO cs)),
           \<lambda>b c. c\<lparr>BlkIO := (BlkIO c)\<lparr>IOPS := BlkServiced_create now b (IOPS (BlkIO c))\<rparr>\<rparr>)]
       stats"
proof -
  have m: "ReadStats_memory fs now cid cs st =
      readStep fs (MemStat.path (Memory cs)) cid (\<lambda>b c. c\<lparr>Memory := MemStat_create now b (Memory c)\<rparr>) st" for st
    by (simp add: ReadStats_memory_def readStep_def)
  have c: "ReadStats_cpu fs now cid cs st =
      readStep fs (CPUStat.path (CPU cs)) cid (\<lambda>b c. c\<lparr>CPU := CPUStat_create now b (CPU c)\<rparr>) st" for st
    by (simp add: ReadStats_cpu_def readStep_def)
  have b: "ReadStats_bytes fs now cid cs st =
      readStep fs (BlkServiced.path (Bytes (BlkIO cs))) cid
        (\<lambda>b c. c\<lparr>BlkIO := (BlkIO c)\<lparr>Bytes := BlkServiced_create now b (Bytes (BlkIO c))\<rparr>\<rparr>) st" for st
    by (simp add: ReadStats_bytes_def readStep_def)
  have i: "ReadStats_iops fs now cid cs st =
      readStep fs (BlkServiced.path (IOPS (BlkIO cs))) cid
        (\<lambda>b c. c\<lparr>BlkIO := (BlkIO c)\<lparr>IOPS := BlkServiced_create now b (IOPS (BlkIO c))\<rparr>\<rparr>) st" for st
    by (simp add: ReadStats_iops_def readStep_def)
  show ?thesis
    unfolding ReadStats_body_def m c b i
    by (simp split: stats_flow.splits)
qed

lemma ReadStats_body_cases:
  assumes "stats cid = Some ent"
  shows "(firstError fs (boundPaths_part002 cs) = None \<longrightarrow>
            (\<exists>s'. ReadStats_body fs now cid cs stats = Next s' \<and> s' cid \<noteq> None \<and>
                  sameElsewhere cid stats s')) \<and>
         (\<forall>e. firstError fs (boundPaths_part002 cs) = Some e \<longrightarrow>
            (IsNotExist e \<longrightarrow>
               (\<exists>s'. ReadStats_body fs now cid cs stats = NilDereference s' \<and> s' cid = None \<and>
                     sameElsewhere cid stats s')) \<and>
            (\<not> IsNotExist e \<longrightarrow>
               (\<exists>s'. ReadStats_body fs now cid cs stats = ReturnError s' e \<and> s' cid \<noteq> None \<and>
                     sameElsewhere cid stats s')))"
  using readChain_cases [where stats = stats and cid = cid and ent = ent and fs = fs and steps =
      "[(MemStat.path (Memory cs), \<lambda>b c. c\<lparr>Memory := MemStat_create now b (Memory c)\<rparr>),
        (CPUStat.path (CPU cs), \<lambda>b c. c\<lparr>CPU := CPUStat_create now b (CPU c)\<rparr>),
        (BlkServiced.path (Bytes (BlkIO cs)),
           \<lambda>b c. c\<lparr>BlkIO := (BlkIO c)\<lparr>Bytes := BlkServiced_create now b (Bytes (BlkIO c))\<rparr>\<rparr>),
        (BlkServiced.path (IOPS (BlkIO cs)),
           \<lambda>b c. c\<lparr>BlkIO := (BlkIO c)\<lparr>IOPS := BlkServiced_create now b (IOPS (BlkIO c))\<rparr>\<rparr>)]", OF assms]
  unfolding ReadStats_body_chain boundPaths_part002_def by simp


lemma ReadStats_loop_append:
  "ReadStats_loop fs now (pre @ post) stats =
     (case ReadStats_loop fs now pre stats of
        Next s1 \<Rightarrow> ReadStats_loop fs now post s1
      | ReturnError s1 e \<Rightarrow> ReturnError s1 e
      | NilDereference s1 \<Rightarrow> NilDereference s1)"
  by (induction pre arbitrary: stats) (auto split: option.splits stats_flow.splits)

lemma allReadable_tail:
  "allReadable fs (k # ids) stats \<Longrightarrow> k \<notin> set ids \<Longrightarrow> sameElsewhere k stats s1 \<Longrightarrow>
   allReadable fs ids s1"
  by (auto simp: allReadable_def sameElsewhere_def)

lemma noOtherError_part002_tail:
  "noOtherError_part002 fs (k # ids) stats \<Longrightarrow> k \<notin> set ids \<Longrightarrow> sameElsewhere k stats s1 \<Longrightarrow>
   noOtherError_part002 fs ids s1"
  by (auto simp: noOtherError_part002_def sameElsewhere_def)

lemma sameElsewhere_refl: "sameElsewhere k s s"
  by (simp add: sameElsewhere_def)

lemma ReadStats_loop_ok:
  "distinct ids \<Longrightarrow> allReadable fs ids stats \<Longrightarrow>
   \<exists>s'. ReadStats_loop fs now ids stats = Next s' \<and> (\<forall>k. k \<notin> set ids \<longrightarrow> s' k = stats k)"
proof (induction ids arbitrary: stats)
  case Nil
  then show ?case by simp
next
  case (Cons k ids)
  from Cons.prems have k: "k \<notin> set ids" and d: "distinct ids" by simp_all
  show ?case
  proof (cases "stats k")
    case None
    have "allReadable fs ids stats"
      by (rule allReadable_tail [OF Cons.prems(2) k sameElsewhere_refl])
    from Cons.IH [OF d this] None show ?thesis by auto
  next
    case (Some c)
    with Cons.prems(2) have fe: "firstError fs (boundPaths_part002 c) = None"
      by (simp add: allReadable_def)
    from ReadStats_body_cases [where stats = stats and cid = k and ent = c and fs = fs and cs = c and now = now, OF Some] fe
    obtain s1 where s1: "ReadStats_body fs now k c stats = Next s1" "sameElsewhere k stats s1"
      by auto
    have "allReadable fs ids s1"
      by (rule allReadable_tail [OF Cons.prems(2) k s1(2)])
    from Cons.IH [OF d this]
    obtain s' where s': "ReadStats_loop fs now ids s1 = Next s'" "\<forall>j. j \<notin> set ids \<longrightarrow> s' j = s1 j"
      by auto
    have "\<forall>j. j \<notin> set (k # ids) \<longrightarrow> s' j = stats j"
      using s'(2) s1(2) by (simp add: sameElsewhere_def)
    then show ?thesis using Some s1(1) s'(1) by simp
  qed
qed

lemma ReadStats_loop_panic:
  assumes "distinct ids" and "noOtherError_part002 fs ids stats" and "cid \<in> set ids"
    and "stats cid = Some cs" and "\<exists>p\<in>set (boundPaths_part002 cs). missing fs p"
  shows "\<exists>s'. ReadStats_loop fs now ids stats = NilDereference s'"
  using assms
proof (induction ids arbitrary: stats)
  case Nil
  then show ?case by simp
next
  case (Cons k ids)
  from Cons.prems have k: "k \<notin> set ids" and d: "distinct ids" by simp_all
  have tail: "\<exists>s'. ReadStats_loop fs now ids s1 = NilDereference s'"
    if "sameElsewhere k stats s1" and "k \<noteq> cid" for s1
  proof (rule Cons.IH [OF d _ _ _ Cons.prems(5)])
    show "noOtherError_part002 fs ids s1"
      by (rule noOtherError_part002_tail [OF Cons.prems(2) k that(1)])
    show "cid \<in> set ids" using Cons.prems(3) that(2) by simp
    show "s1 cid = Some cs" using that Cons.prems(4) by (simp add: sameElsewhere_def)
  qed
  show ?case
  proof (cases "stats k")
    case None
    then have "k \<noteq> cid" using Cons.prems(4) by auto
    from tail [OF sameElsewhere_refl this] None show ?thesis by simp
  next
    case (Some c)
    from Some Cons.prems(2) have no: "\<forall>p\<in>set (boundPaths_part002 c). \<not> otherError fs p"
      by (simp add: noOtherError_part002_def)
    show ?thesis
    proof (cases "\<exists>p\<in>set (boundPaths_part002 c). missing fs p")
      case True
      with no have "firstError fs (boundPaths_part002 c) = Some ErrNotExist"
        by (simp add: firstError_cases)
      with ReadStats_body_cases [where stats = stats and cid = k and ent = c and fs = fs and cs = c and now = now, OF Some]
      obtain s1 where "ReadStats_body fs now k c stats = NilDereference s1"
        by (auto simp: IsNotExist_def)
      then show ?thesis using Some by simp
    next
      case False
      with no have fe: "firstError fs (boundPaths_part002 c) = None"
        by (simp add: firstError_cases)
      from False Some Cons.prems(4,5) have ne: "k \<noteq> cid" by auto
      from ReadStats_body_cases [where stats = stats and cid = k and ent = c and fs = fs and cs = c and now = now, OF Some] fe
      obtain s1 where s1: "ReadStats_body fs now k c stats = Next s1" "sameElsewhere k stats s1"
        by auto
      from tail [OF s1(2) ne] Some s1(1) show ?thesis by simp
    qed
  qed
qed


lemma endsWithoutError_Cons:
  "endsWithoutError fs (k # ids) cg \<Longrightarrow> k \<notin> set ids \<Longrightarrow> endsWithoutError fs ids (cg(k := v))"
  by (auto simp: endsWithoutError_def)

lemma ReadCgroups_loop_passes:
  "distinct ids \<Longrightarrow> endsWithoutError fs ids cg \<Longrightarrow> snd (ReadCgroups_loop fs ids cg) = None"
proof (induction ids arbitrary: cg)
  case Nil
  then show ?case by simp
next
  case (Cons k ids)
  from Cons.prems have k: "k \<notin> set ids" and d: "distinct ids" by simp_all
  have tail: "snd (ReadCgroups_loop fs ids (cg(k := v))) = None" for v
    by (rule Cons.IH [OF d endsWithoutError_Cons [OF Cons.prems(2) k]])
  have same: "snd (ReadCgroups_loop fs ids cg) = None"
    using tail [of "cg k"] by simp
  show ?case
  proof (cases "cg k")
    case None
    then show ?thesis using same by simp
  next
    case (Some c)
    with Cons.prems(2)
    have "firstError fs (boundPaths c) = None \<or>
          (\<exists>e. firstError fs (boundPaths c) = Some e \<and> IsNotExist e)"
      by (auto simp: endsWithoutError_def split: option.splits)
    then show ?thesis
      using Some tail by (subst ReadCgroups_loop.simps, subst ReadCgroups_body_cases) auto
  qed
qed

lemma ReadCgroups_other_error:
  assumes "distinct (pre @ cid # post)" and "endsWithoutError fs pre cg" and "cg cid = Some cs"
    and "firstError fs (boundPaths cs) = Some e" and "\<not> IsNotExist e"
  shows "\<exists>m m'. ReadCgroups fs (pre @ cid # post) (Some cg) = (Some m, Err e) \<and>
                ReadCgroups fs pre (Some cg) = (Some m', Ok m') \<and> (\<forall>k\<in>set pre. m k = m' k)"
proof -
  from assms(1) have d: "distinct pre" and notin: "cid \<notin> set pre" by simp_all
  obtain m' r where loop: "ReadCgroups_loop fs pre cg = (m', r)" by (cases "ReadCgroups_loop fs pre cg")
  have r: "r = None" using ReadCgroups_loop_passes [OF d assms(2)] loop by simp
  have at: "m' cid = Some cs" using ReadCgroups_loop_other [OF notin, of fs cg] loop assms(3) by simp
  obtain c' where body: "ReadCgroups_body fs cs = Return c' e"
    using assms(4,5) by (subst (asm) ReadCgroups_body_cases [of fs cs, THEN eq_reflection]) auto
  have "ReadCgroups_loop fs (pre @ cid # post) cg = (m'(cid \<mapsto> c'), Some e)"
    by (simp add: ReadCgroups_loop_append loop r at body)
  moreover have "\<forall>k\<in>set pre. (m'(cid \<mapsto> c')) k = m' k" using notin by auto
  ultimately show ?thesis by (simp add: ReadCgroups_def loop r)
qed

lemma ReadCgroups_fails:
  assumes "distinct ids" and "\<not> endsWithoutError fs ids cg"
  shows "\<exists>e. snd (ReadCgroups fs ids (Some cg)) = Err e \<and> \<not> IsNotExist e"
proof -
  define P where
    "P = (\<lambda>k. \<exists>c e. cg k = Some c \<and> firstError fs (boundPaths c) = Some e \<and> \<not> IsNotExist e)"
  from assms(2) obtain k0 where "k0 \<in> set ids" and "P k0"
    unfolding endsWithoutError_def P_def by (auto split: option.splits)
  then have "\<exists>k\<in>set ids. P k" by blast
  from split_list_first_prop [OF this]
  obtain pre k post where ids: "ids = pre @ k # post" and k: "P k" and pre: "\<forall>j\<in>set pre. \<not> P j"
    by blast
  from k obtain c e where c: "cg k = Some c" "firstError fs (boundPaths c) = Some e" "\<not> IsNotExist e"
    unfolding P_def by blast
  have "endsWithoutError fs pre cg"
    unfolding endsWithoutError_def
  proof
    fix j assume "j \<in> set pre"
    with pre have "\<not> P j" by blast
    then show "case cg j of None \<Rightarrow> True
                | Some c \<Rightarrow> (case firstError fs (boundPaths c) of
                              None \<Rightarrow> True | Some e \<Rightarrow> IsNotExist e)"
      unfolding P_def by (auto split: option.splits)
  qed
  from ReadCgroups_other_error [OF assms(1) [unfolded ids] this c]
  show ?thesis unfolding ids using c(3) by auto
qed

lemma ReadCgroups_succeeds:
  assumes "distinct ids" and "endsWithoutError fs ids cg"
  shows "\<exists>m. ReadCgroups fs ids (Some cg) = (Some m, Ok m)"
proof -
  obtain m r where loop: "ReadCgroups_loop fs ids cg = (m, r)" by (cases "ReadCgroups_loop fs ids cg")
  have "r = None" using ReadCgroups_loop_passes [OF assms] loop by simp
  then show ?thesis by (simp add: ReadCgroups_def loop)
qed

lemma ReadStats_other_error:
  assumes "distinct (pre @ cid # post)" and "allReadable fs pre stats" and "stats cid = Some cs"
    and "firstError fs (boundPaths_part002 cs) = Some e" and "\<not> IsNotExist e"
  shows "\<exists>m m'. ReadStats fs now (pre @ cid # post) (Some stats) = (Some m, Err e) \<and>
                ReadStats fs now pre (Some stats) = (Some m', Ok m') \<and> (\<forall>k\<in>set pre. m k = m' k)"
proof -
  from assms(1) have d: "distinct pre" and notin: "cid \<notin> set pre" by simp_all
  from ReadStats_loop_ok [OF d assms(2), of now]
  obtain m' where loop: "ReadStats_loop fs now pre stats = Next m'"
    and same: "\<forall>k. k \<notin> set pre \<longrightarrow> m' k = stats k" by auto
  have at: "m' cid = Some cs" using same notin assms(3) by simp
  from ReadStats_body_cases [where stats = m' and cid = cid and ent = cs and fs = fs and cs = cs and now = now, OF at] assms(4,5)
  obtain m where body: "ReadStats_body fs now cid cs m' = ReturnError m e" and se: "sameElsewhere cid m' m"
    by auto
  have "ReadStats_loop fs now (pre @ cid # post) stats = ReturnError m e"
    by (simp add: ReadStats_loop_append loop at body)
  moreover have "\<forall>k\<in>set pre. m k = m' k" using notin se by (auto simp: sameElsewhere_def)
  ultimately show ?thesis by (simp add: ReadStats_def loop)
qed

text \<open>
  C4 (amended). The pass visits the keys \<open>pre\<close>, then \<open>cid\<close>. When the first failing read
  of the entry of \<open>cid\<close> fails with an error \<open>e\<close> other than not-found, and the pass gets
  that far (in \<^verbatim>\<open>ReadCgroups\<close>: for no entry before is the first failing read another
  error; in \<^verbatim>\<open>ReadStats\<close> of part_002: every bound file of the entries before is read),
  the call returns \<open>e\<close> and no map, and the entries visited before hold exactly what a pass
  over them alone leaves in them: nothing is rolled back. \<^verbatim>\<open>ReadCgroups\<close> returns an error
  exactly when the first failing read of some visited entry is such an error; a file that
  would fail but is not read, because a missing file removed its entry first, does not
  make the call fail.
\<close>

theorem C4_other_error_aborts:
  assumes "distinct (pre @ cid # post)"
  shows "(endsWithoutError fs pre cg \<and> cg cid = Some cs \<and> firstError fs (boundPaths cs) = Some e \<and>
          \<not> IsNotExist e \<longrightarrow>
            (\<exists>m m'. ReadCgroups fs (pre @ cid # post) (Some cg) = (Some m, Err e) \<and>
                    ReadCgroups fs pre (Some cg) = (Some m', Ok m') \<and> (\<forall>k\<in>set pre. m k = m' k))) \<and>
         (distinct ids \<and> \<not> endsWithoutError fs ids cg \<longrightarrow>
            (\<exists>e'. snd (ReadCgroups fs ids (Some cg)) = Err e' \<and> \<not> IsNotExist e')) \<and>
         (distinct ids \<and> endsWithoutError fs ids cg \<longrightarrow>
            (\<exists>m. ReadCgroups fs ids (Some cg) = (Some m, Ok m))) \<and>
         (allReadable fs pre stats \<and> stats cid = Some cs2 \<and>
          firstError fs (boundPaths_part002 cs2) = Some e \<and> \<not> IsNotExist e \<longrightarrow>
            (\<exists>m m'. ReadStats fs now (pre @ cid # post) (Some stats) = (Some m, Err e) \<and>
                    ReadStats fs now pre (Some stats) = (Some m', Ok m') \<and> (\<forall>k\<in>set pre. m k = m' k)))"
  using ReadCgroups_other_error [OF assms, of fs cg cs e]
    ReadStats_other_error [OF assms, of fs stats cs2 e now]
    ReadCgroups_fails [of ids fs cg] ReadCgroups_succeeds [of ids fs cg]
  by blast

text \<open>
  C10. In the version of part_002, \<^verbatim>\<open>readFile\<close> on a file that does not exist deletes the
  key and returns empty content and no error; the body of \<^verbatim>\<open>ReadStats\<close> then looks the
  deleted key up and dereferences the nil pointer it gets, for the memory file and as well
  for whichever bound file is the first to fail with not-found. So a pass over entries of
  which one has a missing bound file, and none a file that fails otherwise, ends in the
  nil dereference, not in a return.
\<close>

theorem C10_eviction_reaches_nil:
  "(missing fs p \<longrightarrow> readFile fs p cid stats = (stats(cid := None), Inr [])) \<and>
   (stats cid = Some cs \<and> MemStat.path (Memory cs) \<noteq> [] \<and> missing fs (MemStat.path (Memory cs)) \<longrightarrow>
      ReadStats_body fs now cid cs stats = NilDereference (stats(cid := None))) \<and>
   (stats cid = Some cs \<and> firstError fs (boundPaths_part002 cs) = Some e \<and> IsNotExist e \<longrightarrow>
      (\<exists>s'. ReadStats_body fs now cid cs stats = NilDereference s' \<and> s' cid = None)) \<and>
   (distinct ids \<and> noOtherError_part002 fs ids stats \<and> cid \<in> set ids \<and> stats cid = Some cs \<and>
    (\<exists>p\<in>set (boundPaths_part002 cs). missing fs p) \<longrightarrow>
      snd (ReadStats fs now ids (Some stats)) = NilPointerPanic)"
proof -
  have a: "missing fs q \<Longrightarrow> readFile fs q cid stats = (stats(cid := None), Inr [])" for q
    by (auto simp: missing_def readFile_def split: sum.splits)
  have b: "stats cid = Some cs \<Longrightarrow> MemStat.path (Memory cs) \<noteq> [] \<Longrightarrow>
      missing fs (MemStat.path (Memory cs)) \<Longrightarrow>
      ReadStats_body fs now cid cs stats = NilDereference (stats(cid := None))"
    by (simp add: ReadStats_body_def ReadStats_memory_def a)
  have c: "stats cid = Some cs \<Longrightarrow> firstError fs (boundPaths_part002 cs) = Some e \<Longrightarrow> IsNotExist e \<Longrightarrow>
      \<exists>s'. ReadStats_body fs now cid cs stats = NilDereference s' \<and> s' cid = None"
    using ReadStats_body_cases [where stats = stats and cid = cid and ent = cs and fs = fs and cs = cs and now = now] by auto
  have d: "distinct ids \<Longrightarrow> noOtherError_part002 fs ids stats \<Longrightarrow> cid \<in> set ids \<Longrightarrow>
      stats cid = Some cs \<Longrightarrow> \<exists>p\<in>set (boundPaths_part002 cs). missing fs p \<Longrightarrow>
      snd (ReadStats fs now ids (Some stats)) = NilPointerPanic"
    using ReadStats_loop_panic [where ids = ids and fs = fs and stats = stats and cid = cid and cs = cs and now = now]
    by (auto simp: ReadStats_def)
  from a b c d show ?thesis by blast
qed


lemma example_paths:
  "boundPaths (entryAt p) = (if p = [] then [] else [p])"
  "boundPaths_part002 (entryAt_part002 p) = (if p = [] then [] else [p])"
  by (simp_all add: boundPaths_def boundPaths_part002_def entryAt_def entryAt_part002_def
      ContainerStat0_def ContainerStats0_def BlkServiced0_def)

lemma example_reads:
  "missing exampleFs ''/cg/c/memory.stat''"
  "\<not> otherError exampleFs ''/cg/c/memory.stat''"
  "\<not> otherError exampleFs ''/cg/a/memory.stat''"
  "\<not> missing exampleFs ''/cg/a/memory.stat''"
  "exampleFs ''/cg/a/memory.stat'' = Inr ''cache 100\<newline>rss 200\<newline>''"
  "exampleFs ''/cg/b/memory.stat'' = Inl (ErrOther 13)"
  "exampleFs ''/cg/c/memory.stat'' = Inl ErrNotExist"
  by (simp_all add: missing_def otherError_def exampleFs_def IsNotExist_def)

lemma example_parse:
  "createMemStat (entryAt ''/cg/a/memory.stat'') ''cache 100\<newline>rss 200\<newline>'' =
     ContainerStat0\<lparr>ContainerStat.Memory := \<lparr>CMemStat.path = ''/cg/a/memory.stat'', RSS = 200, Cache = 100\<rparr>\<rparr>"
  "MemStat_create 1 ''cache 100\<newline>rss 200\<newline>'' (Memory (entryAt_part002 ''/cg/a/memory.stat'')) =
     \<lparr>MemStat.path = ''/cg/a/memory.stat'', Timestamp = 1, RSS = 200, Cache = 100\<rparr>"
  by code_simp+



text \<open>
  The claim as it stands fails: the CPU file of the entry cannot be read, but its memory
  file is gone, so \<^verbatim>\<open>ReadCgroups\<close> removes the entry before it reads the CPU file and
  returns no error. In the later version a missing file met before the denied one ends the
  pass in the nil dereference, not in the error.
\<close>

theorem C4_unread_file_counterexample:
  "CCPUStat.path (ContainerStat.CPU hiddenErrorEntry) = ''/cg/x/cpuacct.stat'' \<and>
   hiddenErrorFs ''/cg/x/cpuacct.stat'' = Inl (ErrOther 13) \<and>
   otherError hiddenErrorFs ''/cg/x/cpuacct.stat'' \<and>
   ReadCgroups hiddenErrorFs [''x''] (Some [''x'' \<mapsto> hiddenErrorEntry]) =
     (Some Map.empty, Ok Map.empty) \<and>
   otherError exampleFs (MemStat.path (Memory (entryAt_part002 ''/cg/b/memory.stat''))) \<and>
   snd (ReadStats exampleFs 1 [''c'', ''b''] (Some deniedGoneStats)) = NilPointerPanic"
  by (simp add: ReadCgroups_def ReadCgroups_body_def ReadCgroups_memory_def ReadCgroups_cpu_def
      hiddenErrorEntry_def hiddenErrorFs_def otherError_def IsNotExist_def
      ReadStats_def ReadStats_body_def ReadStats_memory_def readFile_def
      deniedGoneStats_def entryAt_part002_def exampleFs_def)

theorem C4_other_error_aborts_witness:
  "distinct ([''a''] @ ''b'' # []) \<and> endsWithoutError exampleFs [''a''] deniedCgroups \<and>
   deniedCgroups ''b'' = Some (entryAt ''/cg/b/memory.stat'') \<and>
   firstError exampleFs (boundPaths (entryAt ''/cg/b/memory.stat'')) = Some (ErrOther 13) \<and>
   \<not> IsNotExist (ErrOther 13) \<and> allReadable exampleFs [''a''] deniedStats \<and>
   deniedStats ''b'' = Some (entryAt_part002 ''/cg/b/memory.stat'') \<and>
   firstError exampleFs (boundPaths_part002 (entryAt_part002 ''/cg/b/memory.stat'')) = Some (ErrOther 13) \<and>
   (\<exists>m. ReadCgroups exampleFs [''a'', ''b''] (Some deniedCgroups) = (Some m, Err (ErrOther 13)) \<and>
        m ''a'' = Some (ContainerStat0\<lparr>ContainerStat.Memory :=
                    \<lparr>CMemStat.path = ''/cg/a/memory.stat'', RSS = 200, Cache = 100\<rparr>\<rparr>)) \<and>
   (\<exists>m. ReadStats exampleFs 1 [''a'', ''b''] (Some deniedStats) = (Some m, Err (ErrOther 13)) \<and>
        m ''a'' = Some ((entryAt_part002 ''/cg/a/memory.stat'')\<lparr>Memory :=
                    \<lparr>MemStat.path = ''/cg/a/memory.stat'', Timestamp = 1, RSS = 200, Cache = 100\<rparr>\<rparr>)) \<and>
   distinct [''b'', ''a''] \<and> \<not> endsWithoutError exampleFs [''b'', ''a''] deniedCgroups \<and>
   (\<exists>e'. snd (ReadCgroups exampleFs [''b'', ''a''] (Some deniedCgroups)) = Err e' \<and> \<not> IsNotExist e') \<and>
   distinct [''x''] \<and> endsWithoutError hiddenErrorFs [''x''] [''x'' \<mapsto> hiddenErrorEntry] \<and>
   (\<exists>m. ReadCgroups hiddenErrorFs [''x''] (Some [''x'' \<mapsto> hiddenErrorEntry]) = (Some m, Ok m))"
proof -
  have h1: "distinct ([''a''] @ ''b'' # [])" by simp
  have h2: "endsWithoutError exampleFs [''a''] deniedCgroups"
    by (simp add: endsWithoutError_def deniedCgroups_def example_paths example_reads)
  have h3: "deniedCgroups ''b'' = Some (entryAt ''/cg/b/memory.stat'')" by (simp add: deniedCgroups_def)
  have h4: "firstError exampleFs (boundPaths (entryAt ''/cg/b/memory.stat'')) = Some (ErrOther 13)"
    by (simp add: example_paths example_reads)
  have h5: "\<not> IsNotExist (ErrOther 13)" by (simp add: IsNotExist_def)
  have g2: "allReadable exampleFs [''a''] deniedStats"
    by (simp add: allReadable_def deniedStats_def example_paths example_reads)
  have g3: "deniedStats ''b'' = Some (entryAt_part002 ''/cg/b/memory.stat'')" by (simp add: deniedStats_def)
  have g4: "firstError exampleFs (boundPaths_part002 (entryAt_part002 ''/cg/b/memory.stat'')) = Some (ErrOther 13)"
    by (simp add: example_paths example_reads)
  have i1: "distinct [''b'', ''a'']" by simp
  have i2: "\<not> endsWithoutError exampleFs [''b'', ''a''] deniedCgroups"
    by (simp add: endsWithoutError_def deniedCgroups_def example_paths example_reads IsNotExist_def)
  have j1: "distinct [''x'']" by simp
  have j2: "endsWithoutError hiddenErrorFs [''x''] [''x'' \<mapsto> hiddenErrorEntry]"
    by (simp add: endsWithoutError_def boundPaths_def hiddenErrorEntry_def hiddenErrorFs_def
        IsNotExist_def)
  have p1: "ReadCgroups exampleFs [''a''] (Some deniedCgroups) =
      (Some (deniedCgroups(''a'' \<mapsto> ContainerStat0\<lparr>ContainerStat.Memory :=
          \<lparr>CMemStat.path = ''/cg/a/memory.stat'', RSS = 200, Cache = 100\<rparr>\<rparr>)),
       Ok (deniedCgroups(''a'' \<mapsto> ContainerStat0\<lparr>ContainerStat.Memory :=
          \<lparr>CMemStat.path = ''/cg/a/memory.stat'', RSS = 200, Cache = 100\<rparr>\<rparr>)))"
    using example_parse(1)
    by (simp add: ReadCgroups_def ReadCgroups_body_def ReadCgroups_memory_def ReadCgroups_cpu_def
        deniedCgroups_def entryAt_def ContainerStat0_def example_reads)
  have p2: "ReadStats exampleFs 1 [''a''] (Some deniedStats) =
      (Some (deniedStats(''a'' \<mapsto> (entryAt_part002 ''/cg/a/memory.stat'')\<lparr>Memory :=
          \<lparr>MemStat.path = ''/cg/a/memory.stat'', Timestamp = 1, RSS = 200, Cache = 100\<rparr>\<rparr>)),
       Ok (deniedStats(''a'' \<mapsto> (entryAt_part002 ''/cg/a/memory.stat'')\<lparr>Memory :=
          \<lparr>MemStat.path = ''/cg/a/memory.stat'', Timestamp = 1, RSS = 200, Cache = 100\<rparr>\<rparr>)))"
    using example_parse(2)
    by (simp add: ReadStats_def ReadStats_body_def ReadStats_memory_def ReadStats_cpu_def
        ReadStats_bytes_def ReadStats_iops_def readFile_def
        deniedStats_def entryAt_part002_def ContainerStats0_def BlkServiced0_def example_reads)
  note c = C4_other_error_aborts [OF h1, where fs = exampleFs and cg = deniedCgroups
      and cs = "entryAt ''/cg/b/memory.stat''" and e = "ErrOther 13" and stats = deniedStats
      and ?cs2.0 = "entryAt_part002 ''/cg/b/memory.stat''" and now = 1 and ids = "[''b'', ''a'']"]
  note c' = C4_other_error_aborts [OF h1, where fs = hiddenErrorFs
      and cg = "[''x'' \<mapsto> hiddenErrorEntry]" and ids = "[''x'']"]
  from c h2 h3 h4 h5 p1
  have r1: "\<exists>m. ReadCgroups exampleFs [''a'', ''b''] (Some deniedCgroups) = (Some m, Err (ErrOther 13)) \<and>
        m ''a'' = Some (ContainerStat0\<lparr>ContainerStat.Memory :=
                    \<lparr>CMemStat.path = ''/cg/a/memory.stat'', RSS = 200, Cache = 100\<rparr>\<rparr>)"
    by auto
  from c g2 g3 g4 h5 p2
  have r2: "\<exists>m. ReadStats exampleFs 1 [''a'', ''b''] (Some deniedStats) = (Some m, Err (ErrOther 13)) \<and>
        m ''a'' = Some ((entryAt_part002 ''/cg/a/memory.stat'')\<lparr>Memory :=
                    \<lparr>MemStat.path = ''/cg/a/memory.stat'', Timestamp = 1, RSS = 200, Cache = 100\<rparr>\<rparr>)"
    by auto
  from c i1 i2
  have r3: "\<exists>e'. snd (ReadCgroups exampleFs [''b'', ''a''] (Some deniedCgroups)) = Err e' \<and> \<not> IsNotExist e'"
    by blast
  from c' j1 j2
  have r4: "\<exists>m. ReadCgroups hiddenErrorFs [''x''] (Some [''x'' \<mapsto> hiddenErrorEntry]) = (Some m, Ok m)"
    by blast
  from h1 h2 h3 h4 h5 g2 g3 g4 r1 r2 i1 i2 r3 j1 j2 r4 show ?thesis by blast
qed

theorem C10_eviction_reaches_nil_witness:
  "missing exampleFs ''/cg/c/memory.stat'' \<and>
   readFile exampleFs ''/cg/c/memory.stat'' ''c'' goneStats = (goneStats(''c'' := None), Inr []) \<and>
   goneStats ''c'' = Some (entryAt_part002 ''/cg/c/memory.stat'') \<and>
   ReadStats_body exampleFs 1 ''c'' (entryAt_part002 ''/cg/c/memory.stat'') goneStats =
     NilDereference (goneStats(''c'' := None)) \<and>
   distinct [''a'', ''c''] \<and> noOtherError_part002 exampleFs [''a'', ''c''] goneStats \<and>
   snd (ReadStats exampleFs 1 [''a'', ''c''] (Some goneStats)) = NilPointerPanic"
proof -
  have h1: "missing exampleFs ''/cg/c/memory.stat''" by (rule example_reads)
  have h2: "goneStats ''c'' = Some (entryAt_part002 ''/cg/c/memory.stat'')" by (simp add: goneStats_def)
  have h3: "MemStat.path (Memory (entryAt_part002 ''/cg/c/memory.stat'')) = ''/cg/c/memory.stat''"
    by (simp add: entryAt_part002_def)
  have h4: "distinct [''a'', ''c'']" by simp
  have h5: "noOtherError_part002 exampleFs [''a'', ''c''] goneStats"
    by (simp add: noOtherError_part002_def goneStats_def example_paths example_reads)
  have h6: "\<exists>p\<in>set (boundPaths_part002 (entryAt_part002 ''/cg/c/memory.stat'')). missing exampleFs p"
    by (simp add: example_paths example_reads)
  note c = C10_eviction_reaches_nil [where fs = exampleFs and p = "''/cg/c/memory.stat''"
      and cid = "''c''" and stats = goneStats and cs = "entryAt_part002 ''/cg/c/memory.stat''"
      and now = 1 and ids = "[''a'', ''c'']"]
  from c h1 h2 h3 h4 h5 h6 show ?thesis by simp
qed

end
